theory Spec2Isabelle
  imports Complex_Main "HOL-Library.Word"
begin

section \<open>Characters, strings and formatted output of the host\<close>

text \<open>
  The classifiers of \<^verbatim>\<open><cctype>\<close> in the "C" locale, on 8-bit characters: a digit is
  one of \<^verbatim>\<open>0\<close> to \<^verbatim>\<open>9\<close>, a blank is the space or one of the control characters 9 to 13.
\<close>

definition isdigit :: "char \<Rightarrow> bool" where
  "isdigit c = (c \<in> set ''0123456789'')"

definition isspace :: "char \<Rightarrow> bool" where
  "isspace c = (c \<in> {CHR '' '', CHR 0x09, CHR 0x0A, CHR 0x0B, CHR 0x0C, CHR 0x0D})"

text \<open>
  A \<^verbatim>\<open>std::string::iterator\<close> is an index into the string. Reading through the
  iterator at \<^verbatim>\<open>end()\<close> reads the terminating NUL that \<^verbatim>\<open>std::string\<close> stores
  behind its last character.
\<close>

definition deref :: "string \<Rightarrow> nat \<Rightarrow> char" where
  "deref s it = (if it < length s then s ! it else CHR 0x00)"

text \<open>\<^verbatim>\<open>std::string(start, it)\<close>: the characters from \<open>start\<close> up to, not including, \<open>it\<close>.\<close>

definition substr :: "string \<Rightarrow> nat \<Rightarrow> nat \<Rightarrow> string" where
  "substr s start it = take (it - start) (drop start s)"

text \<open>
  The arguments a variadic call can pass: an \<^verbatim>\<open>unsigned\<close>, a character, a C string, or a
  \<^verbatim>\<open>va_list\<close> object (which stands for the arguments it was started on).
\<close>

datatype vararg = UInt "32 word" | Chr char | CStr string | VaList "vararg list"

fun decimal :: "nat \<Rightarrow> string" where
  "decimal n = (if n < 10 then [''0123456789'' ! n]
                else decimal (n div 10) @ [''0123456789'' ! (n mod 10)])"

declare decimal.simps [simp del]

text \<open>
  \<^verbatim>\<open>std::printf\<close> for the conversions the program uses (\<^verbatim>\<open>%u\<close>, \<^verbatim>\<open>%c\<close>, \<^verbatim>\<open>%s\<close>, and
  \<^verbatim>\<open>%%\<close>). The result is the text written; \<open>None\<close> is undefined behaviour: a conversion
  whose argument is missing or of another type. Arguments left over are ignored.
\<close>

fun printf :: "string \<Rightarrow> vararg list \<Rightarrow> string option" where
  "printf [] args = Some []"
| "printf [c] args = (if c = CHR ''%'' then None else Some [c])"
| "printf (c # k # fmt) args =
     (if c \<noteq> CHR ''%'' then map_option (\<lambda>t. c # t) (printf (k # fmt) args)
      else if k = CHR ''%'' then map_option (\<lambda>t. k # t) (printf fmt args)
      else
        (case args of
           UInt n # args' \<Rightarrow>
             (if k = CHR ''u'' then map_option (\<lambda>t. decimal (unat n) @ t) (printf fmt args') else None)
         | Chr x # args' \<Rightarrow>
             (if k = CHR ''c'' then map_option (\<lambda>t. x # t) (printf fmt args') else None)
         | CStr x # args' \<Rightarrow>
             (if k = CHR ''s'' then map_option (\<lambda>t. x @ t) (printf fmt args') else None)
         | _ \<Rightarrow> None))"

section \<open>Erronable\<close>

text \<open>
  The base class keeps one flag. Its \<^verbatim>\<open>emitError\<close> starts a \<^verbatim>\<open>va_list\<close> on its
  arguments and hands that object to \<^verbatim>\<open>std::printf\<close> as the only variadic argument;
  \<open>out\<close> collects what each call writes to standard output.
\<close>

record erronable =
  hadError :: bool
  out :: "string option list"

definition anErrorOccurred :: "'a erronable_scheme \<Rightarrow> bool" where
  "anErrorOccurred e = hadError e"

definition emitError :: "string \<Rightarrow> vararg list \<Rightarrow> 'a erronable_scheme \<Rightarrow> 'a erronable_scheme" where
  "emitError fmt args e = e\<lparr>out := out e @ [printf fmt [VaList args]], hadError := True\<rparr>"

section \<open>Tokenizer\<close>

datatype TokenType = number | minus_t | plus_t | slash | star | eof

datatype Token = Token (type_of: TokenType) (lexeme: string)

record tokenizer = erronable +
  source :: string
  tokens :: "Token list"

definition Tokenizer :: "string \<Rightarrow> tokenizer" where
  "Tokenizer src = \<lparr>hadError = False, out = [], source = src, tokens = []\<rparr>"

text \<open>The loop \<^verbatim>\<open>while(std::isdigit(*it) && it < end) it++;\<close> of \<^verbatim>\<open>lexNumber\<close>.\<close>

function lexDigits :: "string \<Rightarrow> nat \<Rightarrow> nat" where
  "lexDigits s it = (if isdigit (deref s it) \<and> it < length s then lexDigits s (Suc it) else it)"
  by pat_completeness auto
termination
  by (relation "measure (\<lambda>(s, it). length s - it)") auto

definition lexNumber :: "string \<Rightarrow> nat \<Rightarrow> nat" where
  "lexNumber s it0 =
     (let it1 = lexDigits s it0;
          it2 = (if deref s it1 = CHR ''.'' then lexDigits s (Suc it1) else it1)
      in if deref s it2 \<noteq> CHR ''e'' then it2
         else
           (let it3 = Suc it2;
                it4 = (if deref s it3 = CHR ''-'' \<or> deref s it3 = CHR ''+'' then Suc it3 else it3)
            in lexDigits s it4))"

declare lexDigits.simps [simp del]

lemma lexDigits_ge: "it \<le> lexDigits s it"
proof (induction s it rule: lexDigits.induct)
  case (1 s it)
  show ?case
  proof (cases "isdigit (deref s it) \<and> it < length s")
    case True
    with "1" have "Suc it \<le> lexDigits s (Suc it)" by simp
    moreover from True have "lexDigits s it = lexDigits s (Suc it)"
      by (subst lexDigits.simps) simp
    ultimately show ?thesis by simp
  next
    case False
    then have "lexDigits s it = it"
      by (subst lexDigits.simps) auto
    then show ?thesis by simp
  qed
qed

lemma lexNumber_ge: "it \<le> lexNumber s it"
proof -
  define it1 where "it1 = lexDigits s it"
  define it2 where "it2 = (if deref s it1 = CHR ''.'' then lexDigits s (Suc it1) else it1)"
  define it3 where "it3 = Suc it2"
  define it4 where "it4 = (if deref s it3 = CHR ''-'' \<or> deref s it3 = CHR ''+'' then Suc it3 else it3)"
  have 1: "it \<le> it1" unfolding it1_def by (rule lexDigits_ge)
  have "it1 \<le> it2"
    unfolding it2_def using lexDigits_ge [of "Suc it1" s] by simp
  with 1 have 2: "it \<le> it2" by simp
  then have "it \<le> it4" unfolding it4_def it3_def by simp
  then have 4: "it \<le> lexDigits s it4"
    using lexDigits_ge [of it4 s] by simp
  have "lexNumber s it = (if deref s it2 \<noteq> CHR ''e'' then it2 else lexDigits s it4)"
    unfolding lexNumber_def Let_def it1_def it2_def it3_def it4_def by simp
  with 2 4 show ?thesis by simp
qed

text \<open>
  The body of \<^verbatim>\<open>lex\<close>: the \<^verbatim>\<open>for\<close> loop over the iterator \<open>it\<close>, whose step
  \<^verbatim>\<open>it++\<close> also runs after each \<^verbatim>\<open>continue\<close>, then the end-of-input token.
\<close>

function lex_loop :: "nat \<Rightarrow> tokenizer \<Rightarrow> tokenizer" where
  "lex_loop it t =
     (if \<not> it < length (source t) then t\<lparr>tokens := tokens t @ [Token eof [CHR 0x00]]\<rparr>
      else
        (let c = source t ! it in
         if isspace c then lex_loop (Suc it) t
         else if isdigit c then
           (let it' = lexNumber (source t) it
            in lex_loop (Suc it') (t\<lparr>tokens := tokens t @ [Token number (substr (source t) it it')]\<rparr>))
         else if c = CHR ''+'' then lex_loop (Suc it) (t\<lparr>tokens := tokens t @ [Token plus_t [c]]\<rparr>)
         else if c = CHR ''-'' then lex_loop (Suc it) (t\<lparr>tokens := tokens t @ [Token minus_t [c]]\<rparr>)
         else if c = CHR ''*'' then lex_loop (Suc it) (t\<lparr>tokens := tokens t @ [Token star [c]]\<rparr>)
         else if c = CHR ''/'' then lex_loop (Suc it) (t\<lparr>tokens := tokens t @ [Token slash [c]]\<rparr>)
         else emitError (''Unexpectd character at column %u: '' @ [CHR 0x27] @ ''%c'' @ [CHR 0x27, CHR 0x0A])
                [UInt (of_nat it), Chr c] t))"
  by pat_completeness auto
termination
proof (relation "measure (\<lambda>(it, t). length (source t) - it)")
  show "wf (measure (\<lambda>(it, t). length (source t) - it))" by simp
next
  fix it :: nat and t :: tokenizer and c it'
  assume "\<not> \<not> it < length (source t)" and "it' = lexNumber (source t) it"
  then show "((Suc it', t\<lparr>tokens := tokens t @ [Token number (substr (source t) it it')]\<rparr>), it, t)
      \<in> measure (\<lambda>(it, t). length (source t) - it)"
    using lexNumber_ge [of it "source t"] by simp
qed auto

declare lex_loop.simps [simp del]

definition lex :: "tokenizer \<Rightarrow> tokenizer" where
  "lex t = lex_loop 0 t"

section \<open>Double-precision numbers of the host\<close>

text \<open>
  \<^verbatim>\<open>double\<close> is IEEE-754 binary64 under round-to-nearest, ties-to-even. \<open>Fin s m e\<close> is
  the finite number \<open>(-1)\<^sup>s \<sqdot> m \<sqdot> 2\<^sup>e\<close> with \<open>m\<close> odd, or the zero of sign \<open>s\<close> when
  \<open>m = 0\<close> (then \<open>e = 0\<close>); \<open>Inf s\<close> is the infinity of sign \<open>s\<close>. A sign of \<open>True\<close> is
  negative.
\<close>

datatype double = Fin bool nat int | Inf bool | NaN

fun bitlen :: "nat \<Rightarrow> nat" where
  "bitlen n = (if n = 0 then 0 else Suc (bitlen (n div 2)))"

declare bitlen.simps [simp del]

function reduce :: "nat \<Rightarrow> int \<Rightarrow> nat \<times> int" where
  "reduce m e = (if m \<noteq> 0 \<and> even m then reduce (m div 2) (e + 1) else (m, e))"
  by pat_completeness auto
termination
  by (relation "measure (\<lambda>(m, e). m)") auto

declare reduce.simps [simp del]

text \<open>
  The double nearest to \<open>p / q\<close> (for \<open>q > 0\<close>) with sign \<open>s\<close>: \<open>e\<close> is the binary
  exponent of \<open>p / q\<close>, \<open>ue\<close> the exponent of the unit in the last place (53 significant
  bits, subnormal below \<open>2\<^sup>-\<^sup>1\<^sup>0\<^sup>2\<^sup>2\<close>), \<open>n\<close> the quotient rounded to an integer number of
  units, ties to even; a result of \<open>2\<^sup>1\<^sup>0\<^sup>2\<^sup>4\<close> or more overflows to infinity.
\<close>

definition round_to_double :: "bool \<Rightarrow> nat \<Rightarrow> nat \<Rightarrow> double" where
  "round_to_double s p q =
     (if p = 0 then Fin s 0 0
      else
        (let e0 = int (bitlen p) - int (bitlen q);
             e = (if q * 2 ^ nat e0 \<le> p * 2 ^ nat (- e0) then e0 else e0 - 1);
             ue = max (e - 52) (- 1074);
             num = p * 2 ^ nat (- ue);
             den = q * 2 ^ nat ue;
             n0 = num div den;
             r = num mod den;
             n = (if den < 2 * r \<or> (2 * r = den \<and> odd n0) then Suc n0 else n0)
         in if n = 0 then Fin s 0 0
            else if 1024 < ue + int (bitlen n) then Inf s
            else (case reduce n ue of (m, x) \<Rightarrow> Fin s m x)))"

text \<open>The double nearest to \<open>p / q \<sqdot> 2\<^sup>x\<close>.\<close>

definition round_scaled :: "bool \<Rightarrow> nat \<Rightarrow> nat \<Rightarrow> int \<Rightarrow> double" where
  "round_scaled s p q x = round_to_double s (p * 2 ^ nat x) (q * 2 ^ nat (- x))"

fun fneg :: "double \<Rightarrow> double" where
  "fneg (Fin s m e) = Fin (\<not> s) m e"
| "fneg (Inf s) = Inf (\<not> s)"
| "fneg NaN = NaN"

fun fadd :: "double \<Rightarrow> double \<Rightarrow> double" where
  "fadd (Fin s m e) (Fin t n f) =
     (let x = min e f;
          a = (if s then - 1 else 1) * int m * 2 ^ nat (e - x);
          b = (if t then - 1 else 1) * int n * 2 ^ nat (f - x);
          c = a + b
      in if c = 0 then Fin (s \<and> t) 0 0 else round_scaled (c < 0) (nat \<bar>c\<bar>) 1 x)"
| "fadd (Fin s m e) (Inf t) = Inf t"
| "fadd (Inf s) (Fin t n f) = Inf s"
| "fadd (Inf s) (Inf t) = (if s = t then Inf s else NaN)"
| "fadd NaN y = NaN"
| "fadd x NaN = NaN"

definition fsub :: "double \<Rightarrow> double \<Rightarrow> double" where
  "fsub x y = fadd x (fneg y)"

fun fmul :: "double \<Rightarrow> double \<Rightarrow> double" where
  "fmul (Fin s m e) (Fin t n f) = round_scaled (s \<noteq> t) (m * n) 1 (e + f)"
| "fmul (Fin s m e) (Inf t) = (if m = 0 then NaN else Inf (s \<noteq> t))"
| "fmul (Inf s) (Fin t n f) = (if n = 0 then NaN else Inf (s \<noteq> t))"
| "fmul (Inf s) (Inf t) = Inf (s \<noteq> t)"
| "fmul NaN y = NaN"
| "fmul x NaN = NaN"

fun fdiv :: "double \<Rightarrow> double \<Rightarrow> double" where
  "fdiv (Fin s m e) (Fin t n f) =
     (if n = 0 then (if m = 0 then NaN else Inf (s \<noteq> t))
      else round_scaled (s \<noteq> t) m n (e - f))"
| "fdiv (Fin s m e) (Inf t) = Fin (s \<noteq> t) 0 0"
| "fdiv (Inf s) (Fin t n f) = Inf (s \<noteq> t)"
| "fdiv (Inf s) (Inf t) = NaN"
| "fdiv NaN y = NaN"
| "fdiv x NaN = NaN"

text \<open>The value of a finite double, and the C comparison \<^verbatim>\<open>==\<close> on doubles.\<close>

fun valof :: "double \<Rightarrow> rat option" where
  "valof (Fin s m e) =
     Some ((if s then - 1 else 1) * of_nat m * (if 0 \<le> e then 2 ^ nat e else 1 / 2 ^ nat (- e)))"
| "valof (Inf s) = None"
| "valof NaN = None"

fun feq :: "double \<Rightarrow> double \<Rightarrow> bool" where
  "feq (Fin s m e) (Fin t n f) = (m = n \<and> e = f \<and> (s = t \<or> m = 0))"
| "feq (Inf s) (Inf t) = (s = t)"
| "feq x y = False"

text \<open>
  \<^verbatim>\<open>std::strtod\<close> on decimal text in the "C" locale: blanks, a sign, digits with an
  optional fraction, an optional exponent (taken only when it has a digit), everything
  behind the longest such prefix ignored; the result is the nearest double, and \<open>0\<close> when
  there is no digit to convert. (The hexadecimal, \<^verbatim>\<open>inf\<close> and \<^verbatim>\<open>nan\<close> forms of the C
  library are left out: they need a letter that no number lexeme of the tokenizer has in
  that place.)
\<close>

definition digits_value :: "string \<Rightarrow> nat" where
  "digits_value ds = foldl (\<lambda>a c. 10 * a + (of_char c - 48)) 0 ds"

definition strtod_exponent :: "string \<Rightarrow> int" where
  "strtod_exponent r =
     (case r of
        [] \<Rightarrow> 0
      | c # r1 \<Rightarrow>
          if c = CHR ''e'' \<or> c = CHR ''E'' then
            (let neg = (r1 \<noteq> [] \<and> hd r1 = CHR ''-'');
                 r2 = (if r1 \<noteq> [] \<and> (hd r1 = CHR ''-'' \<or> hd r1 = CHR ''+'') then tl r1 else r1);
                 ds = takeWhile isdigit r2
             in if ds = [] then 0
                else if neg then - int (digits_value ds) else int (digits_value ds))
          else 0)"

definition strtod :: "string \<Rightarrow> double" where
  "strtod str =
     (let r0 = dropWhile isspace str;
          neg = (r0 \<noteq> [] \<and> hd r0 = CHR ''-'');
          r1 = (if r0 \<noteq> [] \<and> (hd r0 = CHR ''-'' \<or> hd r0 = CHR ''+'') then tl r0 else r0);
          ip = takeWhile isdigit r1;
          r2 = dropWhile isdigit r1;
          fp = (if r2 \<noteq> [] \<and> hd r2 = CHR ''.'' then takeWhile isdigit (tl r2) else []);
          r3 = (if r2 \<noteq> [] \<and> hd r2 = CHR ''.'' then dropWhile isdigit (tl r2) else r2)
      in if ip = [] \<and> fp = [] then Fin False 0 0
         else
           (let k = strtod_exponent r3 - int (length fp)
            in round_to_double neg (digits_value (ip @ fp) * 10 ^ nat k) (10 ^ nat (- k))))"

text \<open>\<^verbatim>\<open>c_str()\<close> as a C function reads it: the characters before the first NUL.\<close>

definition c_str :: "string \<Rightarrow> string" where
  "c_str s = takeWhile (\<lambda>c. c \<noteq> CHR 0x00) s"

section \<open>Expressions and parse rules\<close>

type_synonym Precedence = nat

definition NONE :: Precedence where "NONE = 0"
definition TERM_prec :: Precedence where "TERM_prec = 1"
definition FACTOR :: Precedence where "FACTOR = 2"
definition UNARY :: Precedence where "UNARY = 3"
definition PRIMARY :: Precedence where "PRIMARY = 4"

text \<open>An \<^verbatim>\<open>Expr*\<close>: the null pointer, or one of the three node classes.\<close>

datatype Expr =
    nullptr
  | BinaryExpr TokenType Expr Expr
  | UnaryExpr TokenType Expr
  | LiteralExpr double

text \<open>Pointers to the member functions of the parser; a null pointer is \<open>None\<close>.\<close>

datatype ParseFnInfix = ptr_binary
datatype ParseFnPrefix = ptr_unary | ptr_primary

record ParseRule =
  precedence :: Precedence
  infix_fn :: "ParseFnInfix option"
  prefix_fn :: "ParseFnPrefix option"

text \<open>\<^verbatim>\<open>unordered_map::insert\<close> keeps the entry of a key that is already there.\<close>

definition registerRule ::
  "TokenType \<Rightarrow> Precedence \<Rightarrow> ParseFnPrefix option \<Rightarrow> ParseFnInfix option \<Rightarrow>
   (TokenType \<rightharpoonup> ParseRule) \<Rightarrow> (TokenType \<rightharpoonup> ParseRule)" where
  "registerRule type prec pre_fn inf_fn rules =
     (case rules type of
        Some r \<Rightarrow> rules
      | None \<Rightarrow> rules(type \<mapsto> \<lparr>precedence = prec, infix_fn = inf_fn, prefix_fn = pre_fn\<rparr>))"

definition registerAllRules :: "TokenType \<rightharpoonup> ParseRule" where
  "registerAllRules =
     (registerRule eof NONE None None
     (registerRule number PRIMARY (Some ptr_primary) None
     (registerRule slash FACTOR None (Some ptr_binary)
     (registerRule star FACTOR None (Some ptr_binary)
     (registerRule minus_t TERM_prec (Some ptr_unary) (Some ptr_binary)
     (registerRule plus_t TERM_prec (Some ptr_unary) (Some ptr_binary) Map.empty))))))"

text \<open>\<^verbatim>\<open>rules_[type]\<close>: a key that is not there reads as the value-initialised rule.\<close>

definition getRule :: "TokenType \<Rightarrow> ParseRule" where
  "getRule type =
     (case registerAllRules type of
        Some r \<Rightarrow> r
      | None \<Rightarrow> \<lparr>precedence = NONE, infix_fn = None, prefix_fn = None\<rparr>)"

section \<open>PrattParser\<close>

text \<open>
  What the C++ leaves undefined is a fault of the model: an index past the end of the
  token vector, a call through a null pointer to member.
\<close>

datatype fault = OutOfBounds | NullCall

type_synonym 'a result = "fault + 'a"

record pratt_parser = erronable +
  current :: "32 word"
  ptokens :: "Token list"

definition PrattParser :: "Token list \<Rightarrow> pratt_parser" where
  "PrattParser toks = \<lparr>hadError = False, out = [], current = 0, ptokens = toks\<rparr>"

definition vector_at :: "'a list \<Rightarrow> nat \<Rightarrow> 'a result" where
  "vector_at v i = (if i < length v then Inr (v ! i) else Inl OutOfBounds)"

definition peek :: "pratt_parser \<Rightarrow> Token result" where
  "peek p = vector_at (ptokens p) (unat (current p))"

definition isAtEnd :: "pratt_parser \<Rightarrow> bool result" where
  "isAtEnd p = (case peek p of Inl f \<Rightarrow> Inl f | Inr t \<Rightarrow> Inr (type_of t = eof))"

definition previous :: "pratt_parser \<Rightarrow> Token result" where
  "previous p = vector_at (ptokens p) (unat (current p - 1))"

definition advance :: "pratt_parser \<Rightarrow> (Token \<times> pratt_parser) result" where
  "advance p =
     (case isAtEnd p of
        Inl f \<Rightarrow> Inl f
      | Inr at_end \<Rightarrow>
          (let p' = (if \<not> at_end then p\<lparr>current := current p + 1\<rparr> else p)
           in case previous p' of Inl f \<Rightarrow> Inl f | Inr t \<Rightarrow> Inr (t, p')))"

definition primary :: "pratt_parser \<Rightarrow> (Expr \<times> pratt_parser) result" where
  "primary p =
     (case previous p of
        Inl f \<Rightarrow> Inl f
      | Inr token \<Rightarrow>
          if type_of token = number then Inr (LiteralExpr (strtod (c_str (lexeme token))), p)
          else Inr (nullptr, emitError (''Expect a number literal'' @ [CHR 0x0A]) [] p))"

text \<open>
  The recursive descent; \<open>parse_while\<close> is the \<^verbatim>\<open>while\<close> loop of \<^verbatim>\<open>parsePrecedence\<close>.
  The recursion of the C++ has no bound of its own, so the model counts calls down from
  \<open>fuel\<close>; \<open>None\<close> is a run that needs more. \<open>then_do\<close> passes a result on and hands a
  fault or \<open>None\<close> through.
\<close>

definition then_do :: "'a result option \<Rightarrow> ('a \<Rightarrow> 'b result option) \<Rightarrow> 'b result option" where
  "then_do r k = (case r of None \<Rightarrow> None | Some (Inl f) \<Rightarrow> Some (Inl f) | Some (Inr v) \<Rightarrow> k v)"

fun parsePrecedence :: "nat \<Rightarrow> Precedence \<Rightarrow> pratt_parser \<Rightarrow> (Expr \<times> pratt_parser) result option"
  and parse_while :: "nat \<Rightarrow> Precedence \<Rightarrow> Expr \<Rightarrow> pratt_parser \<Rightarrow> (Expr \<times> pratt_parser) result option"
  and binary :: "nat \<Rightarrow> Expr \<Rightarrow> pratt_parser \<Rightarrow> (Expr \<times> pratt_parser) result option"
  and unary :: "nat \<Rightarrow> pratt_parser \<Rightarrow> (Expr \<times> pratt_parser) result option"
where
  "parsePrecedence 0 prec p = None"
| "parsePrecedence (Suc fuel) prec p =
     then_do (Some (advance p)) (\<lambda>(token, p1).
       case prefix_fn (getRule (type_of token)) of
         None \<Rightarrow>
           Some (Inr (nullptr,
             emitError (''Expect expression.'' @ [CHR 0x0A] @ ''Unable to parse: '' @ [CHR 0x27] @ ''%s''
                        @ [CHR 0x27, CHR 0x0A])
               [CStr (c_str (lexeme token))] p1))
       | Some prefixRule \<Rightarrow>
           then_do (case prefixRule of ptr_unary \<Rightarrow> unary fuel p1 | ptr_primary \<Rightarrow> Some (primary p1))
             (\<lambda>(expr, p2). parse_while fuel prec expr p2))"
| "parse_while 0 prec expr p = None"
| "parse_while (Suc fuel) prec expr p =
     then_do (Some (peek p)) (\<lambda>nxt.
       if prec \<le> precedence (getRule (type_of nxt)) then
         then_do (Some (advance p)) (\<lambda>(token, p1).
           case infix_fn (getRule (type_of token)) of
             None \<Rightarrow> Some (Inl NullCall)
           | Some ptr_binary \<Rightarrow>
               then_do (binary fuel expr p1) (\<lambda>(expr', p2). parse_while fuel prec expr' p2))
       else Some (Inr (expr, p)))"
| "binary fuel left p =
     then_do (Some (previous p)) (\<lambda>op.
       then_do (parsePrecedence fuel (precedence (getRule (type_of op)) + 1) p) (\<lambda>(right, p').
         Some (Inr (BinaryExpr (type_of op) left right, p'))))"
| "unary fuel p =
     then_do (Some (previous p)) (\<lambda>op.
       then_do (parsePrecedence fuel UNARY p) (\<lambda>(right, p').
         Some (Inr (UnaryExpr (type_of op) right, p'))))"

definition expression :: "nat \<Rightarrow> pratt_parser \<Rightarrow> (Expr \<times> pratt_parser) result option" where
  "expression fuel p = parsePrecedence fuel TERM_prec p"

definition parse :: "nat \<Rightarrow> pratt_parser \<Rightarrow> (Expr \<times> pratt_parser) result option" where
  "parse fuel p = expression fuel p"

section \<open>Evaluator\<close>

record evaluator = erronable +
  ast :: Expr

definition Evaluator :: "Expr \<Rightarrow> evaluator" where
  "Evaluator a = \<lparr>hadError = False, out = [], ast = a\<rparr>"

text \<open>
  \<^verbatim>\<open>dynamic_cast\<close> of the null pointer is null, so a null \<open>expr\<close> is none of the three
  classes and falls through to \<^verbatim>\<open>return NAN\<close>, as the two \<^verbatim>\<open>default\<close> branches do.
\<close>

fun evaluateExpression :: "Expr \<Rightarrow> 'a erronable_scheme \<Rightarrow> double \<times> 'a erronable_scheme" where
  "evaluateExpression (BinaryExpr op l r) ev =
     (case evaluateExpression l ev of (left, ev1) \<Rightarrow>
      case evaluateExpression r ev1 of (right, ev2) \<Rightarrow>
        (case op of
           plus_t \<Rightarrow> (fadd left right, ev2)
         | minus_t \<Rightarrow> (fsub left right, ev2)
         | star \<Rightarrow> (fmul left right, ev2)
         | slash \<Rightarrow> (fdiv left right, ev2)
         | _ \<Rightarrow> (NaN, emitError (''Invalid binary operator!'' @ [CHR 0x0A]) [] ev2)))"
| "evaluateExpression (UnaryExpr op r) ev =
     (case evaluateExpression r ev of (right, ev1) \<Rightarrow>
        (case op of
           plus_t \<Rightarrow> (right, ev1)
         | minus_t \<Rightarrow> (fneg right, ev1)
         | _ \<Rightarrow> (NaN, emitError (''Invalid unary operator!'' @ [CHR 0x0A]) [] ev1)))"
| "evaluateExpression (LiteralExpr v) ev = (v, ev)"
| "evaluateExpression nullptr ev = (NaN, ev)"

definition eval :: "evaluator \<Rightarrow> double \<times> evaluator" where
  "eval ev = evaluateExpression (ast ev) ev"

section \<open>One line of the read loop\<close>

text \<open>
  The body of the loop in \<^verbatim>\<open>main\<close> for a line other than \<^verbatim>\<open>exit\<close>: tokenize, stop on a
  lexical error; parse, stop on a parse error; evaluate and print the value.
\<close>

datatype outcome =
    LexFailed tokenizer
  | ParseFailed pratt_parser
  | Crashed fault
  | Printed double evaluator

definition main_line :: "nat \<Rightarrow> string \<Rightarrow> outcome option" where
  "main_line fuel line =
     (let tokenizer = lex (Tokenizer line)
      in if anErrorOccurred tokenizer then Some (LexFailed tokenizer)
         else
           (case parse fuel (PrattParser (tokens tokenizer)) of
              None \<Rightarrow> None
            | Some (Inl f) \<Rightarrow> Some (Crashed f)
            | Some (Inr (a, parser)) \<Rightarrow>
                if anErrorOccurred parser then Some (ParseFailed parser)
                else (case eval (Evaluator a) of (v, ev) \<Rightarrow> Some (Printed v ev))))"

section \<open>The grammar of number lexemes\<close>

text \<open>
  Recognisers for the two grammars of number lexemes. \<open>digit_plus\<close> takes \<open>digit+\<close> off the
  front of a string and \<open>digit_star\<close> takes \<open>digit*\<close>, both as far as the digits go;
  \<open>opt_sign\<close> takes an optional sign. \<open>matches_number_grammar\<close> follows the words of the
  specification, \<open>digit+ ('.' digit+)? ('e' ('+'|'-')? digit+)?\<close>;
  \<open>matches_scanned_number\<close> is \<open>digit+ ('.' digit*)? ('e' ('+'|'-')? digit*)?\<close>.
\<close>

definition digit_plus :: "string \<Rightarrow> string option" where
  "digit_plus s = (if s \<noteq> [] \<and> isdigit (hd s) then Some (dropWhile isdigit s) else None)"

definition digit_star :: "string \<Rightarrow> string" where
  "digit_star s = dropWhile isdigit s"

definition opt_sign :: "string \<Rightarrow> string" where
  "opt_sign s = (if s \<noteq> [] \<and> (hd s = CHR ''+'' \<or> hd s = CHR ''-'') then tl s else s)"

definition matches_number_grammar :: "string \<Rightarrow> bool" where
  "matches_number_grammar s =
     (case digit_plus s of
        None \<Rightarrow> False
      | Some r1 \<Rightarrow>
          (case (if r1 \<noteq> [] \<and> hd r1 = CHR ''.'' then digit_plus (tl r1) else Some r1) of
             None \<Rightarrow> False
           | Some r2 \<Rightarrow>
               (case (if r2 \<noteq> [] \<and> hd r2 = CHR ''e'' then digit_plus (opt_sign (tl r2)) else Some r2) of
                  None \<Rightarrow> False
                | Some r3 \<Rightarrow> r3 = [])))"

definition matches_scanned_number :: "string \<Rightarrow> bool" where
  "matches_scanned_number s =
     (case digit_plus s of
        None \<Rightarrow> False
      | Some r1 \<Rightarrow>
          (let r2 = (if r1 \<noteq> [] \<and> hd r1 = CHR ''.'' then digit_star (tl r1) else r1);
               r3 = (if r2 \<noteq> [] \<and> hd r2 = CHR ''e'' then digit_star (opt_sign (tl r2)) else r2)
           in r3 = []))"

text \<open>A scanning position: \<open>k\<close> characters in, \<open>L\<close> consumed since \<open>i\<close>, \<open>r\<close> still ahead.\<close>

definition at_pos :: "string \<Rightarrow> nat \<Rightarrow> nat \<Rightarrow> string \<Rightarrow> string \<Rightarrow> bool" where
  "at_pos s i k L r = (k = i + length L \<and> drop i s = L @ r)"

section \<open>Well-formed trees\<close>

text \<open>
  The trees the evaluator has a result for: no null pointer, a \<open>+ - * /\<close> at every binary
  node and a \<open>+ -\<close> at every unary node.
\<close>

fun well_formed :: "Expr \<Rightarrow> bool" where
  "well_formed nullptr = False"
| "well_formed (LiteralExpr v) = True"
| "well_formed (UnaryExpr op r) = (op \<in> {plus_t, minus_t} \<and> well_formed r)"
| "well_formed (BinaryExpr op l r) = (op \<in> {plus_t, minus_t, star, slash} \<and> well_formed l \<and> well_formed r)"

section \<open>Evaluation lemmas\<close>

lemma getRule_simps:
  "getRule plus_t = \<lparr>precedence = TERM_prec, infix_fn = Some ptr_binary, prefix_fn = Some ptr_unary\<rparr>"
  "getRule minus_t = \<lparr>precedence = TERM_prec, infix_fn = Some ptr_binary, prefix_fn = Some ptr_unary\<rparr>"
  "getRule star = \<lparr>precedence = FACTOR, infix_fn = Some ptr_binary, prefix_fn = None\<rparr>"
  "getRule slash = \<lparr>precedence = FACTOR, infix_fn = Some ptr_binary, prefix_fn = None\<rparr>"
  "getRule number = \<lparr>precedence = PRIMARY, infix_fn = None, prefix_fn = Some ptr_primary\<rparr>"
  "getRule eof = \<lparr>precedence = NONE, infix_fn = None, prefix_fn = None\<rparr>"
  by (simp_all add: getRule_def registerAllRules_def registerRule_def)

lemmas prec_defs = NONE_def TERM_prec_def FACTOR_def UNARY_def PRIMARY_def

lemmas parser_defs = parse_def expression_def PrattParser_def then_do_def advance_def isAtEnd_def
  peek_def previous_def vector_at_def primary_def getRule_simps prec_defs

lemmas lex_defs = lex_def Tokenizer_def lex_loop.simps isspace_def isdigit_def lexNumber_def
  lexDigits.simps deref_def substr_def anErrorOccurred_def emitError_def Let_def

lemma bitlen_num:
  "bitlen 0 = 0"
  "bitlen (Suc 0) = Suc 0"
  "bitlen (numeral (Num.Bit0 k)) = Suc (bitlen (numeral k))"
  "bitlen (numeral (Num.Bit1 k)) = Suc (bitlen (numeral k))"
proof -
  show z: "bitlen 0 = 0" by (simp add: bitlen.simps)
  show "bitlen (Suc 0) = Suc 0" by (subst bitlen.simps) (simp add: z)
  have "numeral (Num.Bit0 k) div 2 = (numeral k :: nat)" by simp
  then show "bitlen (numeral (Num.Bit0 k)) = Suc (bitlen (numeral k))"
    by (subst bitlen.simps) simp
  have "numeral (Num.Bit1 k) div 2 = (numeral k :: nat)" by simp
  then show "bitlen (numeral (Num.Bit1 k)) = Suc (bitlen (numeral k))"
    by (subst bitlen.simps) simp
qed

lemma reduce_num:
  "reduce 0 e = (0, e)"
  "reduce (Suc 0) e = (Suc 0, e)"
  "reduce (numeral (Num.Bit0 k)) e = reduce (numeral k) (e + 1)"
  "reduce (numeral (Num.Bit1 k)) e = (numeral (Num.Bit1 k), e)"
proof -
  show "reduce 0 e = (0, e)" by (simp add: reduce.simps)
  show "reduce (Suc 0) e = (Suc 0, e)" by (simp add: reduce.simps)
  have "numeral (Num.Bit0 k) div 2 = (numeral k :: nat)" by simp
  then show "reduce (numeral (Num.Bit0 k)) e = reduce (numeral k) (e + 1)"
    by (subst reduce.simps) simp
  show "reduce (numeral (Num.Bit1 k)) e = (numeral (Num.Bit1 k), e)"
    by (subst reduce.simps) simp
qed

lemmas double_eval = round_to_double_def round_scaled_def bitlen_num reduce_num Let_def fsub_def

lemmas strtod_eval = strtod_def strtod_exponent_def digits_value_def c_str_def isdigit_def
  isspace_def Let_def

lemma strtod_small:
  "strtod ''0'' = Fin False 0 0"
  "strtod ''1'' = Fin False 1 0"
  "strtod ''2'' = Fin False 1 1"
  "strtod ''3'' = Fin False 3 0"
  "strtod ''4'' = Fin False 1 2"
  "strtod ''5'' = Fin False 5 0"
  "strtod ''7'' = Fin False 7 0"
  "strtod ''8'' = Fin False 1 3"
  by (simp_all add: strtod_eval) (simp_all add: double_eval)

lemma c_str_small:
  "c_str ''0'' = ''0''" "c_str ''1'' = ''1''" "c_str ''2'' = ''2''" "c_str ''3'' = ''3''"
  "c_str ''4'' = ''4''" "c_str ''5'' = ''5''" "c_str ''8'' = ''8''"
  by (simp_all add: c_str_def)

lemma infix_operator:
  "infix_fn (getRule b) = Some ptr_binary \<longleftrightarrow> b \<in> {plus_t, minus_t, star, slash}"
  by (cases b) (simp_all add: getRule_simps)

lemma prefix_operator:
  "prefix_fn (getRule u) = Some ptr_unary \<longleftrightarrow> u \<in> {plus_t, minus_t}"
  by (cases u) (simp_all add: getRule_simps)

section \<open>Associativity and precedence\<close>

lemma parse_left_nested:
  assumes "(b1 \<in> {plus_t, minus_t} \<and> b2 \<in> {plus_t, minus_t}) \<or> (b1 \<in> {star, slash} \<and> b2 \<in> {star, slash})"
    and "5 \<le> fuel"
  shows "parse fuel (PrattParser [Token number x, Token b1 l1, Token number y, Token b2 l2,
            Token number z, Token eof l3])
         = Some (Inr (BinaryExpr b2 (BinaryExpr b1 (LiteralExpr (strtod (c_str x)))
                                                  (LiteralExpr (strtod (c_str y))))
                                   (LiteralExpr (strtod (c_str z))),
                      (PrattParser [Token number x, Token b1 l1, Token number y, Token b2 l2,
                         Token number z, Token eof l3])\<lparr>current := 5\<rparr>))"
proof -
  from assms(2) have "\<exists>n. fuel = Suc (Suc (Suc (Suc (Suc n))))" by presburger
  then obtain n where n: "fuel = Suc (Suc (Suc (Suc (Suc n))))" by blast
  from assms(1) show ?thesis
    unfolding n by (elim disjE conjE insertE emptyE) (simp_all add: parser_defs)
qed

lemma lex_8_3_2:
  "lex (Tokenizer ''8 - 3 - 2'') =
     (Tokenizer ''8 - 3 - 2'')\<lparr>tokens := [Token number ''8'', Token minus_t ''-'',
        Token number ''3'', Token minus_t ''-'', Token number ''2'', Token eof [CHR 0x00]]\<rparr>"
  by (simp add: lex_defs)

lemma main_8_3_2:
  assumes "5 \<le> fuel"
  shows "main_line fuel ''8 - 3 - 2'' =
     Some (Printed (Fin False 3 0) (Evaluator
       (BinaryExpr minus_t
          (BinaryExpr minus_t (LiteralExpr (strtod ''8'')) (LiteralExpr (strtod ''3'')))
          (LiteralExpr (strtod ''2'')))))"
proof -
  have ev: "fsub (fsub (strtod ''8'') (strtod ''3'')) (strtod ''2'') = Fin False 3 0"
    by (simp add: strtod_small) (simp add: double_eval)
  have p: "parse fuel (PrattParser [Token number ''8'', Token minus_t ''-'',
        Token number ''3'', Token minus_t ''-'', Token number ''2'', Token eof [CHR 0x00]]) =
      Some (Inr (BinaryExpr minus_t
          (BinaryExpr minus_t (LiteralExpr (strtod ''8'')) (LiteralExpr (strtod ''3'')))
          (LiteralExpr (strtod ''2'')),
        (PrattParser [Token number ''8'', Token minus_t ''-'',
           Token number ''3'', Token minus_t ''-'', Token number ''2'',
           Token eof [CHR 0x00]])\<lparr>current := 5\<rparr>))"
    using parse_left_nested [OF _ assms, of minus_t minus_t "''8''" "''-''" "''3''" "''-''" "''2''" "[CHR 0x00]"]
    by (simp add: c_str_small)
  show ?thesis
    unfolding main_line_def lex_8_3_2
    apply (simp add: Tokenizer_def anErrorOccurred_def p)
    apply (simp add: PrattParser_def eval_def Evaluator_def ev)
    done
qed

lemma fuel_ge4: "4 \<le> fuel \<Longrightarrow> \<exists>n. fuel = Suc (Suc (Suc (Suc n)))" by presburger
lemma fuel_ge6: "6 \<le> fuel \<Longrightarrow> \<exists>n. fuel = Suc (Suc (Suc (Suc (Suc (Suc n)))))" by presburger

lemma main_2_3_4:
  assumes "6 \<le> fuel"
  shows "main_line fuel ''2 + 3 * 4'' =
     Some (Printed (Fin False 7 1) (Evaluator
       (BinaryExpr plus_t (LiteralExpr (strtod ''2''))
          (BinaryExpr star (LiteralExpr (strtod ''3'')) (LiteralExpr (strtod ''4''))))))"
proof -
  from assms obtain n where n: "fuel = Suc (Suc (Suc (Suc (Suc (Suc n)))))" using fuel_ge6 by blast
  show ?thesis unfolding n
    apply (simp add: main_line_def lex_defs)
    apply (simp add: parser_defs anErrorOccurred_def)
    apply (simp add: eval_def Evaluator_def strtod_eval)
    apply (simp add: double_eval)
    done
qed

lemma main_m2_3:
  assumes "4 \<le> fuel"
  shows "main_line fuel ''-2 + 3'' =
     Some (Printed (Fin False 1 0) (Evaluator
       (BinaryExpr plus_t (UnaryExpr minus_t (LiteralExpr (strtod ''2''))) (LiteralExpr (strtod ''3'')))))"
proof -
  from assms obtain n where n: "fuel = Suc (Suc (Suc (Suc n)))" using fuel_ge4 by blast
  show ?thesis unfolding n
    apply (simp add: main_line_def lex_defs)
    apply (simp add: parser_defs anErrorOccurred_def)
    apply (simp add: eval_def Evaluator_def strtod_eval)
    apply (simp add: double_eval)
    done
qed

lemma main_mm5:
  assumes "4 \<le> fuel"
  shows "main_line fuel ''- -5'' =
     Some (Printed (Fin False 5 0) (Evaluator
       (UnaryExpr minus_t (UnaryExpr minus_t (LiteralExpr (strtod ''5''))))))"
proof -
  from assms obtain n where n: "fuel = Suc (Suc (Suc (Suc n)))" using fuel_ge4 by blast
  show ?thesis unfolding n
    apply (simp add: main_line_def lex_defs)
    apply (simp add: parser_defs anErrorOccurred_def)
    apply (simp add: eval_def Evaluator_def strtod_eval)
    apply (simp add: double_eval)
    done
qed

lemma main_1_0:
  assumes "4 \<le> fuel"
  shows "main_line fuel ''1 / 0'' =
     Some (Printed (Inf False) (Evaluator
       (BinaryExpr slash (LiteralExpr (strtod ''1'')) (LiteralExpr (strtod ''0'')))))"
proof -
  from assms obtain n where n: "fuel = Suc (Suc (Suc (Suc n)))" using fuel_ge4 by blast
  show ?thesis unfolding n
    apply (simp add: main_line_def lex_defs)
    apply (simp add: parser_defs anErrorOccurred_def)
    apply (simp add: eval_def Evaluator_def strtod_eval)
    apply (simp add: double_eval)
    done
qed

lemma main_m1_0:
  assumes "4 \<le> fuel"
  shows "main_line fuel ''-1 / 0'' =
     Some (Printed (Inf True) (Evaluator
       (BinaryExpr slash (UnaryExpr minus_t (LiteralExpr (strtod ''1''))) (LiteralExpr (strtod ''0'')))))"
proof -
  from assms obtain n where n: "fuel = Suc (Suc (Suc (Suc n)))" using fuel_ge4 by blast
  show ?thesis unfolding n
    apply (simp add: main_line_def lex_defs)
    apply (simp add: parser_defs anErrorOccurred_def)
    apply (simp add: eval_def Evaluator_def strtod_eval)
    apply (simp add: double_eval)
    done
qed

lemma parse_right_nested:
  assumes "b1 \<in> {plus_t, minus_t}" and "b2 \<in> {star, slash}" and "6 \<le> fuel"
  shows "parse fuel (PrattParser [Token number x, Token b1 l1, Token number y, Token b2 l2,
            Token number z, Token eof l3])
         = Some (Inr (BinaryExpr b1 (LiteralExpr (strtod (c_str x)))
                        (BinaryExpr b2 (LiteralExpr (strtod (c_str y))) (LiteralExpr (strtod (c_str z)))),
                      (PrattParser [Token number x, Token b1 l1, Token number y, Token b2 l2,
                         Token number z, Token eof l3])\<lparr>current := 5\<rparr>))"
proof -
  from assms(3) obtain n where n: "fuel = Suc (Suc (Suc (Suc (Suc (Suc n)))))" using fuel_ge6 by blast
  from assms(1,2) show ?thesis
    unfolding n by (elim insertE emptyE) (simp_all add: parser_defs)
qed

lemma parse_tighter_first:
  assumes "b1 \<in> {plus_t, minus_t}" and "b2 \<in> {star, slash}" and "6 \<le> fuel"
  shows "parse fuel (PrattParser [Token number x, Token b2 l1, Token number y, Token b1 l2,
            Token number z, Token eof l3])
         = Some (Inr (BinaryExpr b1 (BinaryExpr b2 (LiteralExpr (strtod (c_str x))) (LiteralExpr (strtod (c_str y))))
                        (LiteralExpr (strtod (c_str z))),
                      (PrattParser [Token number x, Token b2 l1, Token number y, Token b1 l2,
                         Token number z, Token eof l3])\<lparr>current := 5\<rparr>))"
proof -
  from assms(3) obtain n where n: "fuel = Suc (Suc (Suc (Suc (Suc (Suc n)))))" using fuel_ge6 by blast
  from assms(1,2) show ?thesis
    unfolding n by (elim insertE emptyE) (simp_all add: parser_defs)
qed

lemma parse_unary_operand:
  assumes "u \<in> {plus_t, minus_t}" and "b \<in> {plus_t, minus_t, star, slash}" and "4 \<le> fuel"
  shows "parse fuel (PrattParser [Token u l1, Token number x, Token b l2, Token number y, Token eof l3])
         = Some (Inr (BinaryExpr b (UnaryExpr u (LiteralExpr (strtod (c_str x)))) (LiteralExpr (strtod (c_str y))),
                      (PrattParser [Token u l1, Token number x, Token b l2, Token number y, Token eof l3])\<lparr>current := 4\<rparr>))"
proof -
  from assms(3) obtain n where n: "fuel = Suc (Suc (Suc (Suc n)))" using fuel_ge4 by blast
  from assms(1,2) show ?thesis
    unfolding n by (elim insertE emptyE) (simp_all add: parser_defs)
qed

lemma parse_unary_unary:
  assumes "u \<in> {plus_t, minus_t}" and "u' \<in> {plus_t, minus_t}" and "4 \<le> fuel"
  shows "parse fuel (PrattParser [Token u l1, Token u' l2, Token number x, Token eof l3])
         = Some (Inr (UnaryExpr u (UnaryExpr u' (LiteralExpr (strtod (c_str x)))),
                      (PrattParser [Token u l1, Token u' l2, Token number x, Token eof l3])\<lparr>current := 3\<rparr>))"
proof -
  from assms(3) obtain n where n: "fuel = Suc (Suc (Suc (Suc n)))" using fuel_ge4 by blast
  from assms(1,2) show ?thesis
    unfolding n by (elim insertE emptyE) (simp_all add: parser_defs)
qed

text \<open>
  C2. Binary operators of equal precedence are left-associative. For two infix operators
  \<open>b1\<close>, \<open>b2\<close> of the same precedence, the tokens of \<open>x b1 y b2 z\<close> parse to the tree
  \<open>(x b1 y) b2 z\<close>, all five tokens consumed and no error flagged: the right operand of
  \<open>b1\<close> is requested at its precedence plus one, so the enclosing loop takes \<open>b2\<close>. In
  particular the line \<^verbatim>\<open>8 - 3 - 2\<close> builds \<open>(8 - 3) - 2\<close> and prints the double of
  value 3, which is not 7.
\<close>

theorem binary_left_associative:
  assumes "infix_fn (getRule b1) = Some ptr_binary"
    and "infix_fn (getRule b2) = Some ptr_binary"
    and "precedence (getRule b1) = precedence (getRule b2)"
    and "5 \<le> fuel"
  shows "parse fuel (PrattParser [Token number x, Token b1 l1, Token number y, Token b2 l2,
            Token number z, Token eof l3])
         = Some (Inr (BinaryExpr b2 (BinaryExpr b1 (LiteralExpr (strtod (c_str x)))
                                                  (LiteralExpr (strtod (c_str y))))
                                   (LiteralExpr (strtod (c_str z))),
                      (PrattParser [Token number x, Token b1 l1, Token number y, Token b2 l2,
                         Token number z, Token eof l3])\<lparr>current := 5\<rparr>))
       \<and> main_line fuel ''8 - 3 - 2'' =
           Some (Printed (Fin False 3 0) (Evaluator
             (BinaryExpr minus_t
                (BinaryExpr minus_t (LiteralExpr (strtod ''8'')) (LiteralExpr (strtod ''3'')))
                (LiteralExpr (strtod ''2'')))))
       \<and> valof (Fin False 3 0) = Some 3
       \<and> \<not> feq (Fin False 3 0) (strtod ''7'')"
proof (intro conjI)
  from assms(1,2) have "b1 \<in> {plus_t, minus_t, star, slash}" "b2 \<in> {plus_t, minus_t, star, slash}"
    by (simp_all only: infix_operator)
  with assms(3) have "(b1 \<in> {plus_t, minus_t} \<and> b2 \<in> {plus_t, minus_t}) \<or>
      (b1 \<in> {star, slash} \<and> b2 \<in> {star, slash})"
    by (auto simp: getRule_simps prec_defs)
  then show "parse fuel (PrattParser [Token number x, Token b1 l1, Token number y, Token b2 l2,
            Token number z, Token eof l3])
         = Some (Inr (BinaryExpr b2 (BinaryExpr b1 (LiteralExpr (strtod (c_str x)))
                                                  (LiteralExpr (strtod (c_str y))))
                                   (LiteralExpr (strtod (c_str z))),
                      (PrattParser [Token number x, Token b1 l1, Token number y, Token b2 l2,
                         Token number z, Token eof l3])\<lparr>current := 5\<rparr>))"
    using assms(4) by (rule parse_left_nested)
  show "main_line fuel ''8 - 3 - 2'' =
           Some (Printed (Fin False 3 0) (Evaluator
             (BinaryExpr minus_t
                (BinaryExpr minus_t (LiteralExpr (strtod ''8'')) (LiteralExpr (strtod ''3'')))
                (LiteralExpr (strtod ''2'')))))"
    using assms(4) by (rule main_8_3_2)
  show "valof (Fin False 3 0) = Some 3" by simp
  show "\<not> feq (Fin False 3 0) (strtod ''7'')" by (simp add: strtod_small)
qed

theorem binary_left_associative_witness:
  "infix_fn (getRule minus_t) = Some ptr_binary \<and>
   precedence (getRule minus_t) = precedence (getRule minus_t) \<and> (5::nat) \<le> 5 \<and>
   parse 5 (PrattParser [Token number ''8'', Token minus_t ''-'', Token number ''3'',
      Token minus_t ''-'', Token number ''2'', Token eof [CHR 0x00]])
     = Some (Inr (BinaryExpr minus_t
          (BinaryExpr minus_t (LiteralExpr (Fin False 1 3)) (LiteralExpr (Fin False 3 0)))
          (LiteralExpr (Fin False 1 1)),
        (PrattParser [Token number ''8'', Token minus_t ''-'', Token number ''3'',
           Token minus_t ''-'', Token number ''2'', Token eof [CHR 0x00]])\<lparr>current := 5\<rparr>)) \<and>
   main_line 5 ''8 - 3 - 2'' =
     Some (Printed (Fin False 3 0) (Evaluator
       (BinaryExpr minus_t
          (BinaryExpr minus_t (LiteralExpr (Fin False 1 3)) (LiteralExpr (Fin False 3 0)))
          (LiteralExpr (Fin False 1 1)))))"
proof -
  have h1: "infix_fn (getRule minus_t) = Some ptr_binary" by (simp add: getRule_simps)
  have h4: "(5::nat) \<le> 5" by simp
  show ?thesis
    using h1 binary_left_associative [OF h1 h1 refl h4, of "''8''" "''-''" "''3''" "''-''" "''2''" "[CHR 0x00]"]
    by (simp add: c_str_small strtod_small)
qed

text \<open>
  C3. Multiplication and division bind tighter than addition and subtraction. The
  precedences are ordered \<open>NONE < TERM < FACTOR < UNARY < PRIMARY\<close>; the rule table gives
  \<open>+\<close> and \<open>-\<close> the precedence \<open>TERM\<close> and \<open>*\<close> and \<open>/\<close> the precedence \<open>FACTOR\<close>; so for an
  additive \<open>b1\<close> and a multiplicative \<open>b2\<close> the tokens of \<open>x b1 y b2 z\<close> parse to
  \<open>x b1 (y b2 z)\<close> and those of \<open>x b2 y b1 z\<close> to \<open>(x b2 y) b1 z\<close>. In particular the line
  \<^verbatim>\<open>2 + 3 * 4\<close> builds \<open>2 + (3 * 4)\<close> and prints the double of value 14.
\<close>

theorem factor_binds_tighter_than_term:
  assumes "b1 \<in> {plus_t, minus_t}" and "b2 \<in> {star, slash}" and "6 \<le> fuel"
  shows "NONE < TERM_prec \<and> TERM_prec < FACTOR \<and> FACTOR < UNARY \<and> UNARY < PRIMARY
       \<and> precedence (getRule b1) = TERM_prec \<and> precedence (getRule b2) = FACTOR
       \<and> parse fuel (PrattParser [Token number x, Token b1 l1, Token number y, Token b2 l2,
            Token number z, Token eof l3])
         = Some (Inr (BinaryExpr b1 (LiteralExpr (strtod (c_str x)))
                        (BinaryExpr b2 (LiteralExpr (strtod (c_str y)))
                                       (LiteralExpr (strtod (c_str z)))),
                      (PrattParser [Token number x, Token b1 l1, Token number y, Token b2 l2,
                         Token number z, Token eof l3])\<lparr>current := 5\<rparr>))
       \<and> parse fuel (PrattParser [Token number x, Token b2 l1, Token number y, Token b1 l2,
            Token number z, Token eof l3])
         = Some (Inr (BinaryExpr b1 (BinaryExpr b2 (LiteralExpr (strtod (c_str x)))
                                                  (LiteralExpr (strtod (c_str y))))
                                   (LiteralExpr (strtod (c_str z))),
                      (PrattParser [Token number x, Token b2 l1, Token number y, Token b1 l2,
                         Token number z, Token eof l3])\<lparr>current := 5\<rparr>))
       \<and> main_line fuel ''2 + 3 * 4'' =
           Some (Printed (Fin False 7 1) (Evaluator
             (BinaryExpr plus_t (LiteralExpr (strtod ''2''))
                (BinaryExpr star (LiteralExpr (strtod ''3'')) (LiteralExpr (strtod ''4''))))))
       \<and> valof (Fin False 7 1) = Some 14"
proof -
  have order: "NONE < TERM_prec \<and> TERM_prec < FACTOR \<and> FACTOR < UNARY \<and> UNARY < PRIMARY"
    by (simp add: prec_defs)
  from assms(1) have t1: "precedence (getRule b1) = TERM_prec"
    by (auto simp: getRule_simps)
  from assms(2) have t2: "precedence (getRule b2) = FACTOR"
    by (auto simp: getRule_simps)
  have v: "valof (Fin False 7 1) = Some 14" by simp
  show ?thesis
    using order t1 t2 v parse_right_nested [OF assms] parse_tighter_first [OF assms]
      main_2_3_4 [OF assms(3)]
    by blast
qed

theorem factor_binds_tighter_than_term_witness:
  "plus_t \<in> {plus_t, minus_t} \<and> star \<in> {star, slash} \<and> (6::nat) \<le> 6 \<and>
   parse 6 (PrattParser [Token number ''2'', Token plus_t ''+'', Token number ''3'',
      Token star ''*'', Token number ''4'', Token eof [CHR 0x00]])
     = Some (Inr (BinaryExpr plus_t (LiteralExpr (Fin False 1 1))
            (BinaryExpr star (LiteralExpr (Fin False 3 0)) (LiteralExpr (Fin False 1 2))),
        (PrattParser [Token number ''2'', Token plus_t ''+'', Token number ''3'',
           Token star ''*'', Token number ''4'', Token eof [CHR 0x00]])\<lparr>current := 5\<rparr>)) \<and>
   main_line 6 ''2 + 3 * 4'' =
     Some (Printed (Fin False 7 1) (Evaluator
       (BinaryExpr plus_t (LiteralExpr (Fin False 1 1))
          (BinaryExpr star (LiteralExpr (Fin False 3 0)) (LiteralExpr (Fin False 1 2))))))"
proof -
  have h1: "plus_t \<in> {plus_t, minus_t}" by simp
  have h2: "star \<in> {star, slash}" by simp
  have h3: "(6::nat) \<le> 6" by simp
  show ?thesis
    using factor_binds_tighter_than_term [OF h1 h2 h3, of "''2''" "''+''" "''3''" "''*''" "''4''" "[CHR 0x00]"]
    by (simp add: c_str_small strtod_small)
qed

text \<open>
  C4. The prefix operators \<open>+\<close> and \<open>-\<close> take their operand at precedence \<open>UNARY\<close>, above
  every binary operator: the tokens of \<open>u x b y\<close>, for a prefix operator \<open>u\<close> and any infix
  operator \<open>b\<close>, parse to \<open>(u x) b y\<close>, and those of \<open>u u' x\<close> to \<open>u (u' x)\<close>. In particular
  the line \<^verbatim>\<open>-2 + 3\<close> prints the double of value 1 and the line \<^verbatim>\<open>- -5\<close> the double
  of value 5.
\<close>

theorem unary_binds_tightest:
  assumes "prefix_fn (getRule u) = Some ptr_unary"
    and "prefix_fn (getRule u') = Some ptr_unary"
    and "infix_fn (getRule b) = Some ptr_binary"
    and "4 \<le> fuel"
  shows "precedence (getRule b) < UNARY
       \<and> parse fuel (PrattParser [Token u l1, Token number x, Token b l2, Token number y,
            Token eof l3])
         = Some (Inr (BinaryExpr b (UnaryExpr u (LiteralExpr (strtod (c_str x))))
                                  (LiteralExpr (strtod (c_str y))),
                      (PrattParser [Token u l1, Token number x, Token b l2, Token number y,
                         Token eof l3])\<lparr>current := 4\<rparr>))
       \<and> parse fuel (PrattParser [Token u l4, Token u' l5, Token number w, Token eof l6])
         = Some (Inr (UnaryExpr u (UnaryExpr u' (LiteralExpr (strtod (c_str w)))),
                      (PrattParser [Token u l4, Token u' l5, Token number w,
                         Token eof l6])\<lparr>current := 3\<rparr>))
       \<and> main_line fuel ''-2 + 3'' =
           Some (Printed (Fin False 1 0) (Evaluator
             (BinaryExpr plus_t (UnaryExpr minus_t (LiteralExpr (strtod ''2'')))
                (LiteralExpr (strtod ''3'')))))
       \<and> valof (Fin False 1 0) = Some 1
       \<and> main_line fuel ''- -5'' =
           Some (Printed (Fin False 5 0) (Evaluator
             (UnaryExpr minus_t (UnaryExpr minus_t (LiteralExpr (strtod ''5''))))))
       \<and> valof (Fin False 5 0) = Some 5"
proof -
  from assms(1,2) have u: "u \<in> {plus_t, minus_t}" "u' \<in> {plus_t, minus_t}"
    by (simp_all only: prefix_operator)
  from assms(3) have b: "b \<in> {plus_t, minus_t, star, slash}"
    by (simp only: infix_operator)
  then have lt: "precedence (getRule b) < UNARY"
    by (auto simp: getRule_simps prec_defs)
  have v: "valof (Fin False 1 0) = Some 1" "valof (Fin False 5 0) = Some 5" by simp_all
  show ?thesis
    using lt v parse_unary_operand [OF u(1) b assms(4)] parse_unary_unary [OF u assms(4)]
      main_m2_3 [OF assms(4)] main_mm5 [OF assms(4)]
    by blast
qed

theorem unary_binds_tightest_witness:
  "prefix_fn (getRule minus_t) = Some ptr_unary \<and> infix_fn (getRule plus_t) = Some ptr_binary \<and>
   (4::nat) \<le> 4 \<and>
   parse 4 (PrattParser [Token minus_t ''-'', Token number ''2'', Token plus_t ''+'',
      Token number ''3'', Token eof [CHR 0x00]])
     = Some (Inr (BinaryExpr plus_t (UnaryExpr minus_t (LiteralExpr (Fin False 1 1)))
                    (LiteralExpr (Fin False 3 0)),
        (PrattParser [Token minus_t ''-'', Token number ''2'', Token plus_t ''+'',
           Token number ''3'', Token eof [CHR 0x00]])\<lparr>current := 4\<rparr>)) \<and>
   parse 4 (PrattParser [Token minus_t ''-'', Token minus_t ''-'', Token number ''5'',
      Token eof [CHR 0x00]])
     = Some (Inr (UnaryExpr minus_t (UnaryExpr minus_t (LiteralExpr (Fin False 5 0))),
        (PrattParser [Token minus_t ''-'', Token minus_t ''-'', Token number ''5'',
           Token eof [CHR 0x00]])\<lparr>current := 3\<rparr>)) \<and>
   main_line 4 ''-2 + 3'' =
     Some (Printed (Fin False 1 0) (Evaluator
       (BinaryExpr plus_t (UnaryExpr minus_t (LiteralExpr (Fin False 1 1)))
          (LiteralExpr (Fin False 3 0))))) \<and>
   main_line 4 ''- -5'' =
     Some (Printed (Fin False 5 0) (Evaluator
       (UnaryExpr minus_t (UnaryExpr minus_t (LiteralExpr (Fin False 5 0))))))"
proof -
  have h1: "prefix_fn (getRule minus_t) = Some ptr_unary" by (simp add: getRule_simps)
  have h3: "infix_fn (getRule plus_t) = Some ptr_binary" by (simp add: getRule_simps)
  have h4: "(4::nat) \<le> 4" by simp
  show ?thesis
    using h1 h3
      unary_binds_tightest [OF h1 h1 h3 h4, where ?l1.0 = "''-''" and x = "''2''" and ?l2.0 = "''+''"
          and y = "''3''" and ?l3.0 = "[CHR 0x00]" and ?l4.0 = "''-''" and ?l5.0 = "''-''"
          and w = "''5''" and ?l6.0 = "[CHR 0x00]"]
    by (simp add: c_str_small strtod_small)
qed

section \<open>Division by zero\<close>

text \<open>
  C9. Division by zero is not an evaluator error and follows IEEE-754. When the right
  operand of a \<open>/\<close> node evaluates to a zero, the node evaluates to the quotient by that
  zero, in the state its operands left (nothing is emitted, no flag is set), and the
  quotient is: not-a-number for a zero or not-a-number dividend, and otherwise the
  infinity whose sign is the product of the signs. In particular the line \<^verbatim>\<open>1 / 0\<close>
  prints positive infinity and the line \<^verbatim>\<open>-1 / 0\<close> negative infinity, with no error
  flag on the evaluator.
\<close>

theorem division_by_zero_is_infinite:
  assumes "evaluateExpression l ev = (x, ev1)"
    and "evaluateExpression r ev1 = (Fin t 0 f, ev2)"
    and "4 \<le> fuel"
  shows "evaluateExpression (BinaryExpr slash l r) ev = (fdiv x (Fin t 0 f), ev2)
       \<and> fdiv x (Fin t 0 f) =
           (case x of
              Fin s m e \<Rightarrow> if m = 0 then NaN else Inf (s \<noteq> t)
            | Inf s \<Rightarrow> Inf (s \<noteq> t)
            | NaN \<Rightarrow> NaN)
       \<and> (\<exists>ev'. main_line fuel ''1 / 0'' = Some (Printed (Inf False) ev')
                \<and> \<not> anErrorOccurred ev' \<and> out ev' = [])
       \<and> (\<exists>ev'. main_line fuel ''-1 / 0'' = Some (Printed (Inf True) ev')
                \<and> \<not> anErrorOccurred ev' \<and> out ev' = [])"
proof (intro conjI)
  show "evaluateExpression (BinaryExpr slash l r) ev = (fdiv x (Fin t 0 f), ev2)"
    using assms(1,2) by simp
  show "fdiv x (Fin t 0 f) =
           (case x of
              Fin s m e \<Rightarrow> if m = 0 then NaN else Inf (s \<noteq> t)
            | Inf s \<Rightarrow> Inf (s \<noteq> t)
            | NaN \<Rightarrow> NaN)"
    by (cases x) simp_all
  show "\<exists>ev'. main_line fuel ''1 / 0'' = Some (Printed (Inf False) ev')
                \<and> \<not> anErrorOccurred ev' \<and> out ev' = []"
    using main_1_0 [OF assms(3)] by (simp add: anErrorOccurred_def Evaluator_def)
  show "\<exists>ev'. main_line fuel ''-1 / 0'' = Some (Printed (Inf True) ev')
                \<and> \<not> anErrorOccurred ev' \<and> out ev' = []"
    using main_m1_0 [OF assms(3)] by (simp add: anErrorOccurred_def Evaluator_def)
qed

theorem division_by_zero_is_infinite_witness:
  "evaluateExpression (UnaryExpr minus_t (LiteralExpr (Fin False 1 0))) (Evaluator nullptr)
     = (Fin True 1 0, Evaluator nullptr) \<and>
   evaluateExpression (LiteralExpr (Fin False 0 0)) (Evaluator nullptr)
     = (Fin False 0 0, Evaluator nullptr) \<and>
   (4::nat) \<le> 4 \<and>
   evaluateExpression
     (BinaryExpr slash (UnaryExpr minus_t (LiteralExpr (Fin False 1 0))) (LiteralExpr (Fin False 0 0)))
     (Evaluator nullptr) = (Inf True, Evaluator nullptr) \<and>
   main_line 4 ''1 / 0'' =
     Some (Printed (Inf False) (Evaluator
       (BinaryExpr slash (LiteralExpr (Fin False 1 0)) (LiteralExpr (Fin False 0 0))))) \<and>
   main_line 4 ''-1 / 0'' =
     Some (Printed (Inf True) (Evaluator
       (BinaryExpr slash (UnaryExpr minus_t (LiteralExpr (Fin False 1 0)))
          (LiteralExpr (Fin False 0 0)))))"
proof -
  have h1: "evaluateExpression (UnaryExpr minus_t (LiteralExpr (Fin False 1 0))) (Evaluator nullptr)
     = (Fin True 1 0, Evaluator nullptr)" by simp
  have h2: "evaluateExpression (LiteralExpr (Fin False 0 0)) (Evaluator nullptr)
     = (Fin False 0 0, Evaluator nullptr)" by simp
  have h3: "(4::nat) \<le> 4" by simp
  have m: "main_line 4 ''1 / 0'' =
     Some (Printed (Inf False) (Evaluator
       (BinaryExpr slash (LiteralExpr (Fin False 1 0)) (LiteralExpr (Fin False 0 0)))))"
    "main_line 4 ''-1 / 0'' =
     Some (Printed (Inf True) (Evaluator
       (BinaryExpr slash (UnaryExpr minus_t (LiteralExpr (Fin False 1 0)))
          (LiteralExpr (Fin False 0 0)))))"
    using main_1_0 [OF h3] main_m1_0 [OF h3] by (simp_all add: strtod_small)
  show ?thesis
    using division_by_zero_is_infinite [OF h1 h2 h3] m by simp
qed

section \<open>Trees built by the parser\<close>

lemma advance_previous:
  assumes "advance p = Inr (tok, p1)"
  shows "previous p1 = Inr tok" and "hadError p1 = hadError p"
  using assms
  by (auto simp: advance_def Let_def split: sum.splits if_splits)

lemma primary_number:
  assumes "previous p = Inr tok" and "type_of tok = number"
  shows "primary p = Inr (LiteralExpr (strtod (c_str (lexeme tok))), p)"
  using assms by (simp add: primary_def)

lemma prefix_primary: "prefix_fn (getRule t) = Some ptr_primary \<longleftrightarrow> t = number"
  by (cases t) (simp_all add: getRule_simps)

lemma unary_sound:
  assumes IH: "\<And>prec p e p'. parsePrecedence n prec p = Some (Inr (e, p')) \<Longrightarrow> \<not> hadError p' \<Longrightarrow>
                 well_formed e \<and> \<not> hadError p"
    and "unary n p = Some (Inr (e, p'))" and "\<not> hadError p'"
    and "previous p = Inr tok" and "type_of tok \<in> {plus_t, minus_t}"
  shows "well_formed e \<and> \<not> hadError p"
proof -
  from assms(2,4) obtain right where
    r: "parsePrecedence n UNARY p = Some (Inr (right, p'))" and e: "e = UnaryExpr (type_of tok) right"
    by (auto simp: then_do_def split: option.splits sum.splits)
  from IH [OF r assms(3)] e assms(5) show ?thesis by simp
qed

lemma binary_sound:
  assumes IH: "\<And>prec p e p'. parsePrecedence n prec p = Some (Inr (e, p')) \<Longrightarrow> \<not> hadError p' \<Longrightarrow>
                 well_formed e \<and> \<not> hadError p"
    and "binary n left p = Some (Inr (e, p'))" and "\<not> hadError p'"
    and "previous p = Inr tok" and "type_of tok \<in> {plus_t, minus_t, star, slash}"
  shows "(well_formed left \<longrightarrow> well_formed e) \<and> \<not> hadError p"
proof -
  from assms(2,4) obtain right where
    r: "parsePrecedence n (precedence (getRule (type_of tok)) + 1) p = Some (Inr (right, p'))"
    and e: "e = BinaryExpr (type_of tok) left right"
    by (auto simp: then_do_def split: option.splits sum.splits)
  from IH [OF r assms(3)] e assms(5) show ?thesis by simp
qed

lemma parser_sound:
  "(\<forall>prec p e p'. parsePrecedence n prec p = Some (Inr (e, p')) \<longrightarrow> \<not> hadError p' \<longrightarrow>
       well_formed e \<and> \<not> hadError p) \<and>
   (\<forall>prec e0 p e p'. parse_while n prec e0 p = Some (Inr (e, p')) \<longrightarrow> \<not> hadError p' \<longrightarrow>
       (well_formed e0 \<longrightarrow> well_formed e) \<and> \<not> hadError p)"
proof (induction n)
  case 0
  show ?case by simp
next
  case (Suc n)
  then have IHp: "\<And>prec p e p'. parsePrecedence n prec p = Some (Inr (e, p')) \<Longrightarrow> \<not> hadError p' \<Longrightarrow>
                 well_formed e \<and> \<not> hadError p"
    and IHw: "\<And>prec e0 p e p'. parse_while n prec e0 p = Some (Inr (e, p')) \<Longrightarrow> \<not> hadError p' \<Longrightarrow>
       (well_formed e0 \<longrightarrow> well_formed e) \<and> \<not> hadError p"
    by blast+
  have P: "well_formed e \<and> \<not> hadError p"
    if run: "parsePrecedence (Suc n) prec p = Some (Inr (e, p'))" and ok: "\<not> hadError p'"
    for prec p e p'
  proof -
    from run obtain tok p1 where adv: "advance p = Inr (tok, p1)"
      by (cases "advance p") (auto simp: then_do_def)
    note prev = advance_previous [OF adv]
    show ?thesis
    proof (cases "prefix_fn (getRule (type_of tok))")
      case None
      with run adv ok show ?thesis
        by (auto simp: then_do_def emitError_def)
    next
      case (Some prefixRule)
      show ?thesis
      proof (cases prefixRule)
        case ptr_unary
        with Some have ty: "type_of tok \<in> {plus_t, minus_t}"
          by (simp add: prefix_operator)
        from run adv Some ptr_unary obtain ex p2 where
          u: "unary n p1 = Some (Inr (ex, p2))" and w: "parse_while n prec ex p2 = Some (Inr (e, p'))"
          by (auto simp: then_do_def split: option.splits sum.splits)
        from IHw [OF w ok] have w': "well_formed ex \<longrightarrow> well_formed e" "\<not> hadError p2" by simp_all
        from unary_sound [OF IHp u w'(2) prev(1) ty] w'(1) prev(2) show ?thesis by simp
      next
        case ptr_primary
        with Some have ty: "type_of tok = number"
          by (simp add: prefix_primary)
        from run adv Some ptr_primary primary_number [OF prev(1) ty]
        have w: "parse_while n prec (LiteralExpr (strtod (c_str (lexeme tok)))) p1 = Some (Inr (e, p'))"
          by (simp add: then_do_def)
        from IHw [OF w ok] prev(2) show ?thesis by simp
      qed
    qed
  qed
  have W: "(well_formed e0 \<longrightarrow> well_formed e) \<and> \<not> hadError p"
    if run: "parse_while (Suc n) prec e0 p = Some (Inr (e, p'))" and ok: "\<not> hadError p'"
    for prec e0 p e p'
  proof -
    from run obtain nxt where pk: "peek p = Inr nxt"
      by (cases "peek p") (auto simp: then_do_def)
    show ?thesis
    proof (cases "prec \<le> precedence (getRule (type_of nxt))")
      case False
      with run pk ok show ?thesis by (simp add: then_do_def)
    next
      case True
      with run pk obtain tok p1 where adv: "advance p = Inr (tok, p1)"
        by (cases "advance p") (auto simp: then_do_def)
      note prev = advance_previous [OF adv]
      from run pk True adv have "infix_fn (getRule (type_of tok)) \<noteq> None"
        by (auto simp: then_do_def split: option.splits)
      then have inf: "infix_fn (getRule (type_of tok)) = Some ptr_binary"
        by (cases "type_of tok") (simp_all add: getRule_simps)
      then have ty: "type_of tok \<in> {plus_t, minus_t, star, slash}"
        by (simp only: infix_operator)
      from run pk True adv inf obtain ex p2 where
        b: "binary n e0 p1 = Some (Inr (ex, p2))" and w: "parse_while n prec ex p2 = Some (Inr (e, p'))"
        by (auto simp: then_do_def split: option.splits sum.splits)
      from IHw [OF w ok] have w': "well_formed ex \<longrightarrow> well_formed e" "\<not> hadError p2" by simp_all
      from binary_sound [OF IHp b w'(2) prev(1) ty] w'(1) prev(2) show ?thesis by simp
    qed
  qed
  from P W show ?case by blast
qed

lemma well_formed_evaluate:
  "well_formed e \<Longrightarrow> snd (evaluateExpression e ev) = ev"
proof (induction e arbitrary: ev)
  case nullptr
  then show ?case by simp
next
  case (BinaryExpr op l r)
  obtain x ev1 where l: "evaluateExpression l ev = (x, ev1)" by (cases "evaluateExpression l ev")
  obtain y ev2 where r: "evaluateExpression r ev1 = (y, ev2)" by (cases "evaluateExpression r ev1")
  from BinaryExpr.prems have wf: "well_formed l" "well_formed r" by simp_all
  from BinaryExpr.IH(1) [OF wf(1), of ev] l have "ev1 = ev" by simp
  moreover from BinaryExpr.IH(2) [OF wf(2), of ev1] r have "ev2 = ev1" by simp
  ultimately show ?case
    using BinaryExpr.prems l r by (cases op) simp_all
next
  case (UnaryExpr op r)
  obtain y ev1 where r: "evaluateExpression r ev = (y, ev1)" by (cases "evaluateExpression r ev")
  from UnaryExpr.prems have wf: "well_formed r" by simp
  from UnaryExpr.IH [OF wf, of ev] r have "ev1 = ev" by simp
  then show ?case
    using UnaryExpr.prems r by (cases op) simp_all
next
  case (LiteralExpr v)
  then show ?case by simp
qed

text \<open>
  C10. Every tree that a parse returns without having flagged an error is well formed:
  it has no null pointer, every binary node carries one of \<open>+ - * /\<close> and every unary
  node \<open>+\<close> or \<open>-\<close>. Evaluating such a tree never reaches the evaluator's
  "Invalid binary operator!" or "Invalid unary operator!" branches or the fallback behind
  them: the evaluator's state is left as it was, nothing emitted and no flag set.
\<close>

theorem parsed_tree_evaluates_without_error:
  assumes "parse fuel (PrattParser toks) = Some (Inr (e, p'))"
    and "\<not> anErrorOccurred p'"
  shows "well_formed e
       \<and> snd (evaluateExpression e ev) = ev
       \<and> snd (eval (Evaluator e)) = Evaluator e
       \<and> \<not> anErrorOccurred (snd (eval (Evaluator e)))"
proof -
  from assms have wf: "well_formed e"
    using parser_sound [of fuel] by (auto simp: parse_def expression_def anErrorOccurred_def)
  from wf have "snd (evaluateExpression e ev) = ev"
    by (rule well_formed_evaluate)
  moreover have "ast (Evaluator e) = e"
    by (simp add: Evaluator_def)
  with wf have ev: "snd (eval (Evaluator e)) = Evaluator e"
    by (simp add: eval_def well_formed_evaluate)
  moreover have "\<not> anErrorOccurred (snd (eval (Evaluator e)))"
    unfolding ev by (simp add: anErrorOccurred_def Evaluator_def)
  ultimately show ?thesis using wf by blast
qed

theorem parsed_tree_evaluates_without_error_witness:
  "parse 6 (PrattParser [Token number ''2'', Token plus_t ''+'', Token number ''3'',
      Token star ''*'', Token number ''4'', Token eof [CHR 0x00]])
     = Some (Inr (BinaryExpr plus_t (LiteralExpr (Fin False 1 1))
            (BinaryExpr star (LiteralExpr (Fin False 3 0)) (LiteralExpr (Fin False 1 2))),
        (PrattParser [Token number ''2'', Token plus_t ''+'', Token number ''3'',
           Token star ''*'', Token number ''4'', Token eof [CHR 0x00]])\<lparr>current := 5\<rparr>)) \<and>
   \<not> anErrorOccurred ((PrattParser [Token number ''2'', Token plus_t ''+'', Token number ''3'',
           Token star ''*'', Token number ''4'', Token eof [CHR 0x00]])\<lparr>current := 5\<rparr>) \<and>
   well_formed (BinaryExpr plus_t (LiteralExpr (Fin False 1 1))
            (BinaryExpr star (LiteralExpr (Fin False 3 0)) (LiteralExpr (Fin False 1 2)))) \<and>
   snd (eval (Evaluator (BinaryExpr plus_t (LiteralExpr (Fin False 1 1))
            (BinaryExpr star (LiteralExpr (Fin False 3 0)) (LiteralExpr (Fin False 1 2))))))
     = Evaluator (BinaryExpr plus_t (LiteralExpr (Fin False 1 1))
            (BinaryExpr star (LiteralExpr (Fin False 3 0)) (LiteralExpr (Fin False 1 2))))"
proof -
  have h1: "parse 6 (PrattParser [Token number ''2'', Token plus_t ''+'', Token number ''3'',
      Token star ''*'', Token number ''4'', Token eof [CHR 0x00]])
     = Some (Inr (BinaryExpr plus_t (LiteralExpr (Fin False 1 1))
            (BinaryExpr star (LiteralExpr (Fin False 3 0)) (LiteralExpr (Fin False 1 2))),
        (PrattParser [Token number ''2'', Token plus_t ''+'', Token number ''3'',
           Token star ''*'', Token number ''4'', Token eof [CHR 0x00]])\<lparr>current := 5\<rparr>))"
    using parse_right_nested [of plus_t star 6 "''2''" "''+''" "''3''" "''*''" "''4''" "[CHR 0x00]"]
    by (simp add: c_str_small strtod_small)
  have h2: "\<not> anErrorOccurred ((PrattParser [Token number ''2'', Token plus_t ''+'',
           Token number ''3'', Token star ''*'', Token number ''4'',
           Token eof [CHR 0x00]])\<lparr>current := 5\<rparr>)"
    by (simp add: anErrorOccurred_def PrattParser_def)
  from parsed_tree_evaluates_without_error [OF h1 h2] h1 h2 show ?thesis by blast
qed

section \<open>Lines that are one number\<close>

lemma deref_drop: "deref s k = (case drop k s of [] \<Rightarrow> CHR 0x00 | c # r \<Rightarrow> c)"
proof (cases "k < length s")
  case True
  then have "drop k s = s ! k # drop (Suc k) s" by (simp add: Cons_nth_drop_Suc)
  with True show ?thesis by (simp add: deref_def)
next
  case False
  then show ?thesis by (simp add: deref_def)
qed

lemma lexDigits_takeWhile: "lexDigits s k = k + length (takeWhile isdigit (drop k s))"
proof (induction s k rule: lexDigits.induct)
  case (1 s k)
  show ?case
  proof (cases "k < length s")
    case False
    then show ?thesis by (subst lexDigits.simps) simp
  next
    case True
    then have d: "drop k s = s ! k # drop (Suc k) s" by (simp add: Cons_nth_drop_Suc)
    from True have de: "deref s k = s ! k" by (simp add: deref_def)
    show ?thesis
    proof (cases "isdigit (s ! k)")
      case False
      with True de d show ?thesis by (subst lexDigits.simps) simp
    next
      case digit: True
      with True de have "lexDigits s k = lexDigits s (Suc k)"
        by (subst lexDigits.simps) simp
      also from "1" True de digit have "\<dots> = Suc k + length (takeWhile isdigit (drop (Suc k) s))"
        by simp
      finally show ?thesis using d digit by simp
    qed
  qed
qed

lemma isdigit_not_isspace: "isdigit c \<Longrightarrow> \<not> isspace c"
  by (auto simp: isdigit_def isspace_def)

lemma isdigit_not_special:
  "isdigit c \<Longrightarrow> c \<noteq> CHR 0x00 \<and> c \<noteq> CHR ''.'' \<and> c \<noteq> CHR ''e'' \<and> c \<noteq> CHR ''+'' \<and> c \<noteq> CHR ''-''"
  by (auto simp: isdigit_def)

lemma lexNumber_digits:
  assumes "\<forall>c\<in>set d. isdigit c"
  shows "lexNumber d 0 = length d"
proof -
  from assms have tw: "takeWhile isdigit d = d" by simp
  have 1: "lexDigits d 0 = length d" by (simp add: lexDigits_takeWhile tw)
  have 2: "deref d (length d) = CHR 0x00" by (simp add: deref_def)
  show ?thesis
    by (simp add: lexNumber_def 1 2)
qed

lemma lex_digits:
  assumes "d \<noteq> []" and "\<forall>c\<in>set d. isdigit c"
  shows "lex (Tokenizer d) = (Tokenizer d)\<lparr>tokens := [Token number d, Token eof [CHR 0x00]]\<rparr>"
proof -
  from assms have dig: "isdigit (d ! 0)" by (cases d) simp_all
  then have sp: "\<not> isspace (d ! 0)" by (rule isdigit_not_isspace)
  have src: "source (Tokenizer d) = d" "tokens (Tokenizer d) = []" by (simp_all add: Tokenizer_def)
  have "lex (Tokenizer d) =
      lex_loop (Suc (length d)) ((Tokenizer d)\<lparr>tokens := [Token number d]\<rparr>)"
    unfolding lex_def
    using assms(1) dig sp
    by (subst lex_loop.simps) (simp add: src lexNumber_digits [OF assms(2)] substr_def)
  also have "\<dots> = (Tokenizer d)\<lparr>tokens := [Token number d, Token eof [CHR 0x00]]\<rparr>"
    by (subst lex_loop.simps) (simp add: Tokenizer_def)
  finally show ?thesis .
qed

lemma c_str_digits:
  assumes "\<forall>c\<in>set d. isdigit c"
  shows "c_str d = d"
  unfolding c_str_def using assms isdigit_not_special
  by auto

lemma parse_number:
  "parse (Suc (Suc n)) (PrattParser [Token number d, Token eof l]) =
     Some (Inr (LiteralExpr (strtod (c_str d)), (PrattParser [Token number d, Token eof l])\<lparr>current := 1\<rparr>))"
  by (simp add: parser_defs)

lemma if_neq: "a \<noteq> z \<Longrightarrow> b \<noteq> z \<Longrightarrow> (if c then a else b) \<noteq> z"
  by simp

lemma case_prod_neq: "(\<And>m x. f m x \<noteq> z) \<Longrightarrow> (case pr of (m, x) \<Rightarrow> f m x) \<noteq> z"
  by (cases pr) simp

lemma round_to_double_not_NaN: "round_to_double s p q \<noteq> NaN"
  unfolding round_to_double_def Let_def
  by (intro if_neq case_prod_neq) simp_all

lemma strtod_not_NaN: "strtod str \<noteq> NaN"
  unfolding strtod_def Let_def
  by (intro if_neq round_to_double_not_NaN) simp

lemma feq_refl: "x \<noteq> NaN \<Longrightarrow> feq x x"
  by (cases x) simp_all

lemma main_digits:
  assumes "d \<noteq> []" and "\<forall>c\<in>set d. isdigit c" and "2 \<le> fuel"
  shows "main_line fuel d = Some (Printed (strtod d) (Evaluator (LiteralExpr (strtod d))))"
proof -
  from assms(3) have "\<exists>n. fuel = Suc (Suc n)" by presburger
  then obtain n where n: "fuel = Suc (Suc n)" by blast
  define tz where "tz = lex (Tokenizer d)"
  have tz: "tz = (Tokenizer d)\<lparr>tokens := [Token number d, Token eof [CHR 0x00]]\<rparr>"
    unfolding tz_def by (rule lex_digits [OF assms(1,2)])
  have t: "tokens tz = [Token number d, Token eof [CHR 0x00]]"
    unfolding tz by simp
  have ne: "\<not> anErrorOccurred tz"
    unfolding tz by (simp add: anErrorOccurred_def Tokenizer_def)
  define p1 where "p1 = (PrattParser [Token number d, Token eof [CHR 0x00]])\<lparr>current := 1\<rparr>"
  have ne2: "\<not> anErrorOccurred p1"
    unfolding p1_def by (simp add: anErrorOccurred_def PrattParser_def)
  have p: "parse fuel (PrattParser (tokens tz)) = Some (Inr (LiteralExpr (strtod d), p1))"
    unfolding t n p1_def using parse_number [of n d "[CHR 0x00]"]
    by (simp only: c_str_digits [OF assms(2)])
  have e: "eval (Evaluator (LiteralExpr (strtod d))) = (strtod d, Evaluator (LiteralExpr (strtod d)))"
    by (simp add: eval_def Evaluator_def)
  have "main_line fuel d =
      (if anErrorOccurred tz then Some (LexFailed tz)
       else (case parse fuel (PrattParser (tokens tz)) of
               None \<Rightarrow> None
             | Some (Inl f) \<Rightarrow> Some (Crashed f)
             | Some (Inr (a, parser)) \<Rightarrow>
                 if anErrorOccurred parser then Some (ParseFailed parser)
                 else (case eval (Evaluator a) of (v, ev) \<Rightarrow> Some (Printed v ev))))"
    unfolding main_line_def tz_def Let_def ..
  also have "\<dots> = Some (Printed (strtod d) (Evaluator (LiteralExpr (strtod d))))"
    by (simp only: ne p ne2 e if_False option.case sum.case prod.case)
  finally show ?thesis .
qed

lemma main_empty: "main_line (Suc n) [] = Some (Crashed OutOfBounds)"
  apply (simp add: main_line_def lex_defs)
  apply (simp add: parser_defs anErrorOccurred_def unat_0_iff)
  done

text \<open>
  C1, as the spec states it: for every sequence of digits, the empty one included, the
  line evaluates to the number that \<^verbatim>\<open>strtod\<close> reads from it. The empty line has no
  number token: its only token is the end-of-input token, which has no prefix rule, so
  the line prints no value (the parser moreover reads the token before the first one).
\<close>

theorem empty_digits_counterexample:
  "list_all isdigit [] \<and>
   tokens (lex (Tokenizer [])) = [Token eof [CHR 0x00]] \<and>
   main_line 2 [] = Some (Crashed OutOfBounds) \<and>
   main_line 2 [] \<noteq> Some (Printed (strtod []) (Evaluator (LiteralExpr (strtod []))))"
proof -
  have "tokens (lex (Tokenizer [])) = [Token eof [CHR 0x00]]"
    by (simp add: lex_defs)
  moreover have "main_line 2 [] = Some (Crashed OutOfBounds)"
    using main_empty [of 1] by (simp add: numeral_2_eq_2)
  ultimately show ?thesis by simp
qed

text \<open>
  C1, amended: for every non-empty sequence of digits \<open>d\<close>, the line \<open>d\<close> is tokenized to
  one number token with lexeme \<open>d\<close> and the end-of-input token, parsed to the literal
  \<open>strtod d\<close> and evaluated to \<open>strtod d\<close>, which is printed; no error is flagged, and the
  value compares equal to \<open>strtod d\<close> under the C comparison \<^verbatim>\<open>==\<close>.
\<close>

theorem digits_evaluate_to_strtod:
  assumes "d \<noteq> []" and "list_all isdigit d" and "2 \<le> fuel"
  shows "tokens (lex (Tokenizer d)) = [Token number d, Token eof [CHR 0x00]]
       \<and> main_line fuel d = Some (Printed (strtod d) (Evaluator (LiteralExpr (strtod d))))
       \<and> feq (strtod d) (strtod d)"
proof -
  from assms(2) have dig: "\<forall>c\<in>set d. isdigit c" by (simp add: list_all_iff)
  have "tokens (lex (Tokenizer d)) = [Token number d, Token eof [CHR 0x00]]"
    unfolding lex_digits [OF assms(1) dig] by simp
  moreover have "main_line fuel d = Some (Printed (strtod d) (Evaluator (LiteralExpr (strtod d))))"
    using assms(1) dig assms(3) by (rule main_digits)
  moreover have "feq (strtod d) (strtod d)"
    using strtod_not_NaN by (rule feq_refl)
  ultimately show ?thesis by blast
qed

theorem digits_evaluate_to_strtod_witness:
  "''12345'' \<noteq> [] \<and> list_all isdigit ''12345'' \<and> (2::nat) \<le> 2 \<and>
   tokens (lex (Tokenizer ''12345'')) = [Token number ''12345'', Token eof [CHR 0x00]] \<and>
   main_line 2 ''12345'' =
     Some (Printed (Fin False 12345 0) (Evaluator (LiteralExpr (Fin False 12345 0))))"
proof -
  have h1: "''12345'' \<noteq> []" by simp
  have h2: "list_all isdigit ''12345''" by (simp add: isdigit_def)
  have h3: "(2::nat) \<le> 2" by simp
  have v: "strtod ''12345'' = Fin False 12345 0"
    by (simp add: strtod_eval) (simp add: double_eval)
  from digits_evaluate_to_strtod [OF h1 h2 h3] h1 h2 show ?thesis
    by (simp only: v) simp
qed

section \<open>Number lexemes\<close>

lemma at_pos_drop: "at_pos s i k L r \<Longrightarrow> drop k s = r"
proof -
  assume a: "at_pos s i k L r"
  have "drop (i + length L) s = drop (length L) (drop i s)" by (simp add: add.commute)
  also from a have "\<dots> = r" by (simp add: at_pos_def)
  finally show ?thesis using a by (simp add: at_pos_def)
qed

lemma at_pos_deref: "at_pos s i k L r \<Longrightarrow> deref s k = (case r of [] \<Rightarrow> CHR 0x00 | c # r' \<Rightarrow> c)"
  by (simp add: deref_drop at_pos_drop)

lemma at_pos_char: "at_pos s i k L (c # r) \<Longrightarrow> at_pos s i (Suc k) (L @ [c]) r"
  by (simp add: at_pos_def)

lemma at_pos_digits:
  "at_pos s i k L r \<Longrightarrow> at_pos s i (lexDigits s k) (L @ takeWhile isdigit r) (dropWhile isdigit r)"
proof -
  assume a: "at_pos s i k L r"
  then have "lexDigits s k = k + length (takeWhile isdigit r)"
    by (simp add: lexDigits_takeWhile at_pos_drop)
  with a show ?thesis by (simp add: at_pos_def)
qed

lemma at_pos_substr: "at_pos s i k L r \<Longrightarrow> substr s i k = L"
  by (simp add: at_pos_def substr_def)

lemma lexNumber_shape:
  assumes "i < length s" and "isdigit (s ! i)"
  shows "\<exists>ip F E. substr s i (lexNumber s i) = ip @ F @ E \<and> ip \<noteq> [] \<and> list_all isdigit ip
           \<and> (F = [] \<or> (\<exists>fd. F = CHR ''.'' # fd \<and> list_all isdigit fd))
           \<and> (E = [] \<or> (\<exists>sg ed. E = CHR ''e'' # sg @ ed \<and> sg \<in> {[], ''+'', ''-''} \<and> list_all isdigit ed))"
proof -
  define r0 where "r0 = drop i s"
  define ip where "ip = takeWhile isdigit r0"
  define r1 where "r1 = dropWhile isdigit r0"
  define it1 where "it1 = lexDigits s i"
  have p0: "at_pos s i i [] r0" by (simp add: at_pos_def r0_def)
  have p1: "at_pos s i it1 ip r1"
    using at_pos_digits [OF p0] by (simp add: it1_def ip_def r1_def)
  from assms have "r0 = s ! i # drop (Suc i) s" by (simp add: r0_def Cons_nth_drop_Suc)
  with assms(2) have ip: "ip \<noteq> []" "list_all isdigit ip"
    by (simp_all add: ip_def list_all_iff) (metis set_takeWhileD)
  define F where "F = (if deref s it1 = CHR ''.'' then CHR ''.'' # takeWhile isdigit (tl r1) else [])"
  define r2 where "r2 = (if deref s it1 = CHR ''.'' then dropWhile isdigit (tl r1) else r1)"
  define it2 where "it2 = (if deref s it1 = CHR ''.'' then lexDigits s (Suc it1) else it1)"
  have p2: "at_pos s i it2 (ip @ F) r2"
  proof (cases "deref s it1 = CHR ''.''")
    case True
    with at_pos_deref [OF p1] obtain r1' where r1': "r1 = CHR ''.'' # r1'"
      by (cases r1) (auto split: list.splits)
    from p1 have "at_pos s i (Suc it1) (ip @ [CHR ''.'']) r1'"
      unfolding r1' by (rule at_pos_char)
    from at_pos_digits [OF this] True show ?thesis
      by (simp add: F_def r2_def it2_def r1')
  next
    case False
    with p1 show ?thesis by (simp add: F_def r2_def it2_def)
  qed
  have F: "F = [] \<or> (\<exists>fd. F = CHR ''.'' # fd \<and> list_all isdigit fd)"
    by (auto simp: F_def list_all_iff dest: set_takeWhileD)
  define sg where "sg = (if deref s (Suc it2) = CHR ''-'' \<or> deref s (Suc it2) = CHR ''+''
                         then [deref s (Suc it2)] else [])"
  define E where "E = (if deref s it2 \<noteq> CHR ''e'' then []
                       else CHR ''e'' # sg @ takeWhile isdigit (drop (length sg) (tl r2)))"
  have sg: "sg \<in> {[], ''+'', ''-''}"
    by (auto simp: sg_def)
  have ed: "list_all isdigit (takeWhile isdigit (drop (length sg) (tl r2)))"
    by (auto simp: list_all_iff dest: set_takeWhileD)
  have E: "E = [] \<or> (\<exists>sg ed. E = CHR ''e'' # sg @ ed \<and> sg \<in> {[], ''+'', ''-''} \<and> list_all isdigit ed)"
  proof (cases "deref s it2 \<noteq> CHR ''e''")
    case True
    then show ?thesis by (simp add: E_def)
  next
    case False
    then have "E = CHR ''e'' # sg @ takeWhile isdigit (drop (length sg) (tl r2))"
      by (simp add: E_def)
    with sg ed show ?thesis by blast
  qed
  define it4 where "it4 = (if deref s (Suc it2) = CHR ''-'' \<or> deref s (Suc it2) = CHR ''+''
                           then Suc (Suc it2) else Suc it2)"
  have ln: "lexNumber s i = (if deref s it2 \<noteq> CHR ''e'' then it2 else lexDigits s it4)"
    unfolding lexNumber_def Let_def it1_def it2_def it4_def by (rule refl)
  have "\<exists>r3. at_pos s i (lexNumber s i) (ip @ F @ E) r3"
  proof (cases "deref s it2 = CHR ''e''")
    case False
    then have "lexNumber s i = it2"
      by (simp add: ln)
    with p2 False show ?thesis by (auto simp: E_def)
  next
    case True
    with at_pos_deref [OF p2] obtain r2' where r2': "r2 = CHR ''e'' # r2'"
      by (cases r2) (auto split: list.splits)
    from p2 have p3: "at_pos s i (Suc it2) (ip @ F @ [CHR ''e'']) r2'"
      unfolding r2' using at_pos_char by fastforce
    have p4: "at_pos s i it4 (ip @ F @ [CHR ''e''] @ sg) (drop (length sg) r2')"
    proof (cases "deref s (Suc it2) = CHR ''-'' \<or> deref s (Suc it2) = CHR ''+''")
      case sign: True
      with at_pos_deref [OF p3] obtain c r2'' where r2'': "r2' = c # r2''" "c = deref s (Suc it2)"
        by (cases r2') (auto split: list.splits)
      from p3 have "at_pos s i (Suc (Suc it2)) ((ip @ F @ [CHR ''e'']) @ [c]) r2''"
        unfolding r2'' by (rule at_pos_char)
      with sign r2'' show ?thesis by (simp add: it4_def sg_def)
    next
      case False
      with p3 show ?thesis by (simp add: it4_def sg_def)
    qed
    have "lexNumber s i = lexDigits s it4"
      using True by (simp add: ln)
    with at_pos_digits [OF p4] True r2' show ?thesis
      by (auto simp: E_def)
  qed
  then obtain r3 where "at_pos s i (lexNumber s i) (ip @ F @ E) r3" ..
  then have "substr s i (lexNumber s i) = ip @ F @ E" by (rule at_pos_substr)
  with ip F E show ?thesis by blast
qed

lemma dropWhile_digits_append:
  "list_all isdigit xs \<Longrightarrow> rest = [] \<or> \<not> isdigit (hd rest) \<Longrightarrow> dropWhile isdigit (xs @ rest) = rest"
proof (induction xs)
  case Nil
  then show ?case by (cases rest) auto
next
  case (Cons x xs)
  then show ?case by simp
qed

lemma not_isdigit_special:
  "\<not> isdigit (CHR ''.'')" "\<not> isdigit (CHR ''e'')" "\<not> isdigit (CHR ''+'')" "\<not> isdigit (CHR ''-'')"
  by (simp_all add: isdigit_def)

lemma opt_sign_digits: "list_all isdigit ed \<Longrightarrow> opt_sign ed = ed"
  by (cases ed) (auto simp: opt_sign_def not_isdigit_special)

lemma exponent_accepted:
  assumes "sg \<in> {[], ''+'', ''-''}" and "list_all isdigit ed"
  shows "digit_star (opt_sign (sg @ ed)) = []"
proof -
  from assms have "opt_sign (sg @ ed) = ed"
    by (auto simp: opt_sign_digits) (simp_all add: opt_sign_def)
  moreover from assms(2) have "dropWhile isdigit ed = []"
    by (simp add: list_all_iff)
  ultimately show ?thesis by (simp add: digit_star_def)
qed

lemma shape_matches:
  assumes "ip \<noteq> []" and "list_all isdigit ip"
    and "F = [] \<or> (\<exists>fd. F = CHR ''.'' # fd \<and> list_all isdigit fd)"
    and "E = [] \<or> (\<exists>sg ed. E = CHR ''e'' # sg @ ed \<and> sg \<in> {[], ''+'', ''-''} \<and> list_all isdigit ed)"
  shows "matches_scanned_number (ip @ F @ E)"
proof -
  from assms(1,2) have hd: "ip @ F @ E \<noteq> []" "isdigit (hd (ip @ F @ E))"
    by (cases ip; simp)+
  from assms(3,4) have "F @ E = [] \<or> \<not> isdigit (hd (F @ E))"
    by (auto simp: not_isdigit_special)
  with assms(2) have "dropWhile isdigit (ip @ F @ E) = F @ E"
    using dropWhile_digits_append [of ip "F @ E"] by simp
  with hd have 1: "digit_plus (ip @ F @ E) = Some (F @ E)"
    by (simp add: digit_plus_def)
  have E': "E = [] \<or> \<not> isdigit (hd E)"
    using assms(4) by (auto simp: not_isdigit_special)
  have 2: "(if F @ E \<noteq> [] \<and> hd (F @ E) = CHR ''.'' then digit_star (tl (F @ E)) else F @ E) = E"
  proof (cases "F = []")
    case True
    with assms(4) show ?thesis by auto
  next
    case False
    with assms(3) obtain fd where fd: "F = CHR ''.'' # fd" "list_all isdigit fd" by blast
    with E' show ?thesis
      by (simp add: digit_star_def dropWhile_digits_append)
  qed
  have 3: "(if E \<noteq> [] \<and> hd E = CHR ''e'' then digit_star (opt_sign (tl E)) else E) = []"
  proof (cases "E = []")
    case True
    then show ?thesis by simp
  next
    case False
    with assms(4) obtain sg ed where "E = CHR ''e'' # sg @ ed" "sg \<in> {[], ''+'', ''-''}" "list_all isdigit ed"
      by blast
    then show ?thesis by (simp add: exponent_accepted)
  qed
  show ?thesis
    unfolding matches_scanned_number_def 1 Let_def option.case 2 3 ..
qed

lemma lexNumber_matches:
  assumes "i < length s" and "isdigit (s ! i)"
  shows "matches_scanned_number (substr s i (lexNumber s i))"
  using lexNumber_shape [OF assms] shape_matches by metis

lemma lex_loop_numbers:
  "list_all (\<lambda>tok. type_of tok = number \<longrightarrow> matches_scanned_number (lexeme tok)) (tokens t) \<Longrightarrow>
   list_all (\<lambda>tok. type_of tok = number \<longrightarrow> matches_scanned_number (lexeme tok)) (tokens (lex_loop it t))"
proof (induction it t rule: lex_loop.induct)
  case (1 it t)
  show ?case
  proof (cases "it < length (source t)")
    case False
    with "1.prems" show ?thesis by (subst lex_loop.simps) simp
  next
    case True
    then have nn: "\<not> \<not> it < length (source t)" by simp
    show ?thesis
    proof (cases "isspace (source t ! it)")
      case sp: True
      from "1.IH"(1) [OF nn refl sp "1.prems"] True sp show ?thesis
        by (subst lex_loop.simps) simp
    next
      case nsp: False
      show ?thesis
      proof (cases "isdigit (source t ! it)")
        case dig: True
        from True dig have m: "matches_scanned_number (substr (source t) it (lexNumber (source t) it))"
          by (rule lexNumber_matches)
        with "1.prems" have "list_all (\<lambda>tok. type_of tok = number \<longrightarrow> matches_scanned_number (lexeme tok))
            (tokens (t\<lparr>tokens := tokens t @ [Token number (substr (source t) it (lexNumber (source t) it))]\<rparr>))"
          by simp
        from "1.IH"(2) [OF nn refl nsp dig refl this] True nsp dig show ?thesis
          by (subst lex_loop.simps) (simp add: Let_def)
      next
        case ndig: False
        have upd: "list_all (\<lambda>tok. type_of tok = number \<longrightarrow> matches_scanned_number (lexeme tok))
            (tokens (t\<lparr>tokens := tokens t @ [Token ty [source t ! it]]\<rparr>))" if "ty \<noteq> number" for ty
          using "1.prems" that by simp
        show ?thesis
        proof (cases "source t ! it = CHR ''+''")
          case c1: True
          from "1.IH"(3) [OF nn refl nsp ndig c1 upd] True nsp ndig c1 show ?thesis
            by (subst lex_loop.simps) (simp add: Let_def)
        next
          case n1: False
          show ?thesis
          proof (cases "source t ! it = CHR ''-''")
            case c2: True
            from "1.IH"(4) [OF nn refl nsp ndig n1 c2 upd] True nsp ndig n1 c2 show ?thesis
              by (subst lex_loop.simps) (simp add: Let_def)
          next
            case n2: False
            show ?thesis
            proof (cases "source t ! it = CHR ''*''")
              case c3: True
              from "1.IH"(5) [OF nn refl nsp ndig n1 n2 c3 upd] True nsp ndig n1 n2 c3 show ?thesis
                by (subst lex_loop.simps) (simp add: Let_def)
            next
              case n3: False
              show ?thesis
              proof (cases "source t ! it = CHR ''/''")
                case c4: True
                from "1.IH"(6) [OF nn refl nsp ndig n1 n2 n3 c4 upd] True nsp ndig n1 n2 n3 c4 show ?thesis
                  by (subst lex_loop.simps) (simp add: Let_def)
              next
                case n4: False
                with True nsp ndig n1 n2 n3 "1.prems" show ?thesis
                  by (subst lex_loop.simps) (simp add: Let_def emitError_def)
              qed
            qed
          qed
        qed
      qed
    qed
  qed
qed

lemma grammar_subset: "matches_number_grammar l \<Longrightarrow> matches_scanned_number l"
  unfolding matches_number_grammar_def matches_scanned_number_def Let_def
  by (auto simp: digit_plus_def digit_star_def split: option.splits if_splits)

text \<open>
  C5, as the spec states it: every Number token has a lexeme of the grammar
  \<open>digit+ ('.' digit+)? ('e' ('+'|'-')? digit+)?\<close>. The line \<^verbatim>\<open>1.\<close> is scanned to the
  Number token with lexeme \<^verbatim>\<open>1.\<close>, which the grammar does not have: the scanner does
  not ask for a digit behind the point (nor behind the exponent marker).
\<close>

theorem trailing_point_counterexample:
  "tokens (lex (Tokenizer ''1.'')) = [Token number ''1.'', Token eof [CHR 0x00]] \<and>
   \<not> matches_number_grammar ''1.''"
proof -
  have "tokens (lex (Tokenizer ''1.'')) = [Token number ''1.'', Token eof [CHR 0x00]]"
    by (simp add: lex_defs)
  moreover have "\<not> matches_number_grammar ''1.''"
    by (simp add: matches_number_grammar_def digit_plus_def isdigit_def)
  ultimately show ?thesis by simp
qed

text \<open>
  C5, amended: for every input string, every Number token that \<open>lex\<close> emits has a lexeme
  of the grammar \<open>digit+ ('.' digit*)? ('e' ('+'|'-')? digit*)?\<close>, in which the digits
  behind the point and behind the exponent marker may be missing; every word of the
  specification's grammar is a word of this one.
\<close>

theorem number_lexemes_are_scanned_numbers:
  "list_all (\<lambda>tok. type_of tok = number \<longrightarrow> matches_scanned_number (lexeme tok))
     (tokens (lex (Tokenizer s)))
   \<and> (matches_number_grammar l \<longrightarrow> matches_scanned_number l)"
proof -
  have "list_all (\<lambda>tok. type_of tok = number \<longrightarrow> matches_scanned_number (lexeme tok))
     (tokens (Tokenizer s))"
    by (simp add: Tokenizer_def)
  then have "list_all (\<lambda>tok. type_of tok = number \<longrightarrow> matches_scanned_number (lexeme tok))
     (tokens (lex (Tokenizer s)))"
    unfolding lex_def by (rule lex_loop_numbers)
  with grammar_subset show ?thesis by blast
qed

theorem number_lexemes_are_scanned_numbers_witness:
  "tokens (lex (Tokenizer ''1. 2.5e-3 7e'')) =
     [Token number ''1.'', Token number ''2.5e-3'', Token number ''7e'', Token eof [CHR 0x00]] \<and>
   matches_scanned_number ''1.'' \<and> matches_scanned_number ''2.5e-3'' \<and>
   matches_scanned_number ''7e'' \<and>
   matches_number_grammar ''2.5e-3''"
proof -
  have t: "tokens (lex (Tokenizer ''1. 2.5e-3 7e'')) =
     [Token number ''1.'', Token number ''2.5e-3'', Token number ''7e'', Token eof [CHR 0x00]]"
    by (simp add: lex_defs)
  have g: "matches_number_grammar ''2.5e-3''"
    by (simp add: matches_number_grammar_def digit_plus_def opt_sign_def isdigit_def)
  from number_lexemes_are_scanned_numbers [of "''1. 2.5e-3 7e''" "''2.5e-3''"] t g
  show ?thesis by simp
qed

section \<open>Inputs on which the program leaves its specification\<close>

lemma unary_at_end_diverges:
  "parsePrecedence n prec
     \<lparr>hadError = False, out = [], current = 2,
      ptokens = [Token number ''1'', Token plus_t ''+'', Token eof [CHR 0x00]]\<rparr> = None"
proof (induction n arbitrary: prec)
  case 0
  show ?case by simp
next
  case (Suc n)
  then show ?case
    by (simp add: then_do_def advance_def isAtEnd_def peek_def previous_def vector_at_def
        getRule_simps)
qed

lemma trailing_plus_diverges: "main_line n ''1 +'' = None"
proof -
  have l: "lex (Tokenizer ''1 +'') = (Tokenizer ''1 +'')\<lparr>tokens :=
      [Token number ''1'', Token plus_t ''+'', Token eof [CHR 0x00]]\<rparr>"
    by (simp add: lex_defs)
  have p: "parse n (PrattParser [Token number ''1'', Token plus_t ''+'', Token eof [CHR 0x00]]) = None"
  proof (cases n)
    case 0
    then show ?thesis by (simp add: parse_def expression_def)
  next
    case (Suc m)
    show ?thesis
    proof (cases m)
      case 0
      with Suc show ?thesis by (simp add: parser_defs)
    next
      case (Suc k)
      with \<open>n = Suc m\<close> show ?thesis
        by (simp add: parser_defs unary_at_end_diverges)
    qed
  qed
  show ?thesis
    unfolding main_line_def l
    by (simp add: Tokenizer_def anErrorOccurred_def p)
qed

lemma main_1_2: "main_line (Suc (Suc n)) ''1 2'' = Some (Crashed NullCall)"
  apply (simp add: main_line_def lex_defs)
  apply (simp add: parser_defs anErrorOccurred_def)
  done

lemma lex_3_amp_4_nospace:
  "lex (Tokenizer ''3&4'') = (Tokenizer ''3&4'')\<lparr>tokens :=
      [Token number ''3'', Token number ''4'', Token eof [CHR 0x00]]\<rparr>"
  by (simp add: lex_defs)

lemma lex_3_amp_4:
  "lex (Tokenizer ''3 & 4'') = (Tokenizer ''3 & 4'')\<lparr>hadError := True, out := [None],
      tokens := [Token number ''3'']\<rparr>"
  by (simp add: lex_defs)

lemma printf_intended:
  "printf (''Unexpectd character at column %u: '' @ [CHR 0x27] @ ''%c'' @ [CHR 0x27, CHR 0x0A])
      [UInt 2, Chr (CHR ''&'')] =
    Some (''Unexpectd character at column 2: '' @ [CHR 0x27] @ ''&'' @ [CHR 0x27, CHR 0x0A])"
  by (simp add: decimal.simps)

lemma parse_star_2:
  "parse (Suc n) (PrattParser [Token star ''*'', Token number ''2'', Token eof [CHR 0x00]]) =
     Some (Inr (nullptr, (PrattParser [Token star ''*'', Token number ''2'', Token eof [CHR 0x00]])
        \<lparr>hadError := True, out := [None], current := 1\<rparr>))"
  by (simp add: parser_defs emitError_def c_str_def)

lemma parse_eof:
  "parse (Suc n) (PrattParser [Token eof [CHR 0x00]]) = Some (Inl OutOfBounds)"
  by (simp add: parser_defs unat_0_iff)

text \<open>
  C6 says that, for every token sequence, a parse either fails on a missing prefix action
  or succeeds, and ignores tokens left over. On the line \<^verbatim>\<open>1 2\<close> it does neither: behind
  the literal the loop of \<open>parsePrecedence\<close> finds the second number, whose precedence
  \<open>PRIMARY\<close> is not below \<open>TERM\<close>, consumes it and calls its infix action, which is the null
  pointer. On the line \<^verbatim>\<open>1 +\<close> the parse does not return at all: at the end of input
  \<open>advance\<close> hands the \<open>+\<close> back again, and \<open>unary\<close> calls itself without end.
\<close>

theorem number_in_infix_position_calls_null:
  "lex (Tokenizer ''1 2'') =
     (Tokenizer ''1 2'')\<lparr>tokens := [Token number ''1'', Token number ''2'', Token eof [CHR 0x00]]\<rparr>
   \<and> infix_fn (getRule number) = None
   \<and> parse (Suc (Suc n)) (PrattParser [Token number ''1'', Token number ''2'', Token eof [CHR 0x00]])
       = Some (Inl NullCall)
   \<and> main_line (Suc (Suc n)) ''1 2'' = Some (Crashed NullCall)
   \<and> main_line m ''1 +'' = None"
proof -
  have "lex (Tokenizer ''1 2'') =
     (Tokenizer ''1 2'')\<lparr>tokens := [Token number ''1'', Token number ''2'', Token eof [CHR 0x00]]\<rparr>"
    by (simp add: lex_defs)
  moreover have "infix_fn (getRule number) = None"
    by (simp add: getRule_simps)
  moreover have "parse (Suc (Suc n))
      (PrattParser [Token number ''1'', Token number ''2'', Token eof [CHR 0x00]]) = Some (Inl NullCall)"
    by (simp add: parser_defs)
  ultimately show ?thesis
    using main_1_2 [of n] trailing_plus_diverges [of m] by simp
qed

text \<open>
  C7 says that \<open>lex\<close> stops at the first character that is neither blank, digit nor
  operator and reports it with its column. On the line \<^verbatim>\<open>3&4\<close> it does not: \<open>lexNumber\<close>
  leaves the iterator on the \<^verbatim>\<open>&\<close>, the \<^verbatim>\<open>continue\<close> then runs the loop's \<^verbatim>\<open>it++\<close>, and
  the character behind a number is never looked at; the result is two number tokens and
  no error. On the line \<^verbatim>\<open>3 & 4\<close> the scan does stop at column 2 with the flag set and
  the one token \<^verbatim>\<open>3\<close>, and \<open>emitError\<close> is given the column and the character; but it
  hands its \<^verbatim>\<open>va_list\<close> to \<^verbatim>\<open>printf\<close>, so what is written is undefined, where \<^verbatim>\<open>printf\<close>
  on the two arguments themselves would have written the message.
\<close>

theorem character_behind_number_is_skipped:
  "lex (Tokenizer ''3&4'') =
     (Tokenizer ''3&4'')\<lparr>tokens := [Token number ''3'', Token number ''4'', Token eof [CHR 0x00]]\<rparr>
   \<and> \<not> anErrorOccurred (lex (Tokenizer ''3&4''))
   \<and> lex (Tokenizer ''3 & 4'') =
     (Tokenizer ''3 & 4'')\<lparr>hadError := True, out := [None], tokens := [Token number ''3'']\<rparr>
   \<and> printf (''Unexpectd character at column %u: '' @ [CHR 0x27] @ ''%c'' @ [CHR 0x27, CHR 0x0A])
         [UInt 2, Chr (CHR ''&'')]
       = Some (''Unexpectd character at column 2: '' @ [CHR 0x27] @ ''&'' @ [CHR 0x27, CHR 0x0A])"
proof -
  have "\<not> anErrorOccurred (lex (Tokenizer ''3&4''))"
    unfolding lex_3_amp_4_nospace by (simp add: anErrorOccurred_def Tokenizer_def)
  with lex_3_amp_4_nospace lex_3_amp_4 printf_intended show ?thesis by simp
qed

text \<open>
  C8 says that a token sequence whose first token has no prefix rule fails with a parse
  error that carries the lexeme. The empty line gives the end-of-input token alone, which
  has no prefix rule; \<open>advance\<close> does not move past it, and \<open>previous\<close> reads the vector
  at \<open>current - 1\<close> with \<open>current = 0\<close>, far outside it. On the line \<^verbatim>\<open>* 2\<close> the parse
  does flag the error and returns the null pointer, and \<open>emitError\<close> is given the lexeme;
  what it writes is undefined, for the reason given at C7.
\<close>

theorem end_of_input_first_reads_out_of_bounds:
  "lex (Tokenizer []) = (Tokenizer [])\<lparr>tokens := [Token eof [CHR 0x00]]\<rparr>
   \<and> prefix_fn (getRule eof) = None
   \<and> previous (PrattParser [Token eof [CHR 0x00]]) = Inl OutOfBounds
   \<and> parse (Suc n) (PrattParser [Token eof [CHR 0x00]]) = Some (Inl OutOfBounds)
   \<and> main_line (Suc n) [] = Some (Crashed OutOfBounds)
   \<and> parse (Suc n) (PrattParser [Token star ''*'', Token number ''2'', Token eof [CHR 0x00]])
       = Some (Inr (nullptr,
           (PrattParser [Token star ''*'', Token number ''2'', Token eof [CHR 0x00]])
             \<lparr>hadError := True, out := [None], current := 1\<rparr>))"
proof -
  have "lex (Tokenizer []) = (Tokenizer [])\<lparr>tokens := [Token eof [CHR 0x00]]\<rparr>"
    by (simp add: lex_defs)
  moreover have "prefix_fn (getRule eof) = None"
    by (simp add: getRule_simps)
  moreover have "previous (PrattParser [Token eof [CHR 0x00]]) = Inl OutOfBounds"
    by (simp add: previous_def PrattParser_def vector_at_def unat_0_iff)
  ultimately show ?thesis
    using parse_eof [of n] main_empty [of n] parse_star_2 [of n] by simp
qed

end
